theory Spec2Isabelle
  imports Complex_Main "HOL-Library.Word" "HOL-Library.Log_Nat"
begin

unbundle bit_operations_syntax

section \<open>The ABS ECU daemon (ParkingAssist/ABS\_ECU/abs\_ecu.c)\<close>

text \<open>
  The daemon reads 8-byte ultrasonic frames from a CAN socket, checks their CRC, maps the
  distance to a brake percentage, writes the duty cycle to a sysfs PWM channel and reports
  the brake state on the bus. The embedding keeps the C types: \<open>uint8_t\<close> is \<open>8 word\<close>,
  \<open>uint16_t\<close> is \<open>16 word\<close>, \<open>int\<close> is \<open>32 word\<close> read through \<open>sint\<close> (signed
  overflow wraps, two's complement), \<open>unsigned long\<close> and \<open>unsigned long long\<close> are
  \<open>64 word\<close>. The three \<open>int\<close> globals that hold only 0 or 1 are booleans. Diagnostic
  printing to \<open>stderr\<close> is left out.
\<close>

subsection \<open>CRC8, polynomial 0x07, most significant bit first\<close>

text \<open>The inner loop of \<open>crc8\<close>: the argument counts the iterations that remain.\<close>

fun crc8_bits :: "nat \<Rightarrow> 8 word \<Rightarrow> 8 word" where
  "crc8_bits 0 crc = crc"
| "crc8_bits (Suc b) crc =
     crc8_bits b (if crc AND 0x80 \<noteq> 0 then push_bit 1 crc XOR 0x07 else push_bit 1 crc)"

text \<open>The outer loop of \<open>crc8\<close> over the bytes it visits.\<close>

fun crc8_bytes :: "8 word list \<Rightarrow> 8 word \<Rightarrow> 8 word" where
  "crc8_bytes [] crc = crc"
| "crc8_bytes (d # ds) crc = crc8_bytes ds (crc8_bits 8 (crc XOR d))"

definition crc8 :: "8 word list \<Rightarrow> nat \<Rightarrow> 8 word" where
  "crc8 data len = crc8_bytes (take len data) 0"

text \<open>
  The CRC as the specification words it: a shift register of eight bits, initially 0,
  fed the message one bit at a time, the most significant bit of each byte first. Each
  step shifts the register left by one; when the bit shifted out differs from the message
  bit, the polynomial 0x07 is added (exclusive or). This second definition is compared
  with \<open>crc8\<close> below.
\<close>

definition msb_first :: "8 word \<Rightarrow> bool list" where
  "msb_first d = map (bit d) [7, 6, 5, 4, 3, 2, 1, 0]"

definition crc_step :: "8 word \<Rightarrow> bool \<Rightarrow> 8 word" where
  "crc_step reg b = (if bit reg 7 \<noteq> b then push_bit 1 reg XOR 0x07 else push_bit 1 reg)"

definition crc8_poly07 :: "8 word list \<Rightarrow> 8 word" where
  "crc8_poly07 bytes = foldl crc_step 0 (concat (map msb_first bytes))"

text \<open>One turn of the inner loop of \<open>crc8\<close>, and eight of them, named for the proofs.\<close>

definition crc_shift :: "8 word \<Rightarrow> 8 word" where
  "crc_shift c = (if bit c 7 then push_bit 1 c XOR 0x07 else push_bit 1 c)"

definition crc_shift8 :: "8 word \<Rightarrow> 8 word" where
  "crc_shift8 x =
     crc_shift (crc_shift (crc_shift (crc_shift (crc_shift (crc_shift (crc_shift (crc_shift x)))))))"

subsection \<open>Frame codec\<close>

record telemetry =
  tf_distance_mm :: "16 word"
  tf_counter :: "8 word"
  tf_status :: "8 word"

datatype integrity_error = IntegrityError (received: "8 word") (computed: "8 word")

text \<open>
  Lines 332 to 348 of \<open>main\<close>: the payload is checked against its eighth byte
  and parsed. The payload of a \<open>struct can_frame\<close> always has eight bytes.
\<close>

definition decode_telemetry :: "8 word list \<Rightarrow> integrity_error + telemetry" where
  "decode_telemetry data =
     (let computed = crc8 data 7 in
      if computed \<noteq> data ! 7 then Inl (IntegrityError (data ! 7) computed)
      else Inr \<lparr>tf_distance_mm = push_bit 8 (ucast (data ! 0)) OR ucast (data ! 1),
                tf_counter = data ! 2,
                tf_status = data ! 3\<rparr>)"

text \<open>The two payload bytes that \<open>can_send_brake\<close> puts on the bus.\<close>

definition encode_status :: "8 word \<Rightarrow> 8 word \<Rightarrow> 8 word list" where
  "encode_status state percent = [if state \<noteq> 0 then 0x01 else 0x00, percent]"

subsection \<open>Double precision arithmetic\<close>

text \<open>
  A C \<open>double\<close> is an IEEE 754 binary64 number: 53 significant bits, results rounded
  to the nearest representable number, ties to the even significand. The finite values
  are rationals; every magnitude this program computes is 0 or lies between \<open>2 ^ 31\<close>
  and its inverse, far from overflow and from the subnormal numbers, so the exponent is
  not bounded here. \<open>dbl_exp x\<close> is the binary exponent of a positive \<open>x\<close>.
\<close>

definition round_even :: "rat \<Rightarrow> int" where
  "round_even q =
     (let n = \<lfloor>q\<rfloor>; r = q - of_int n in
      if r < 1 / 2 then n else if 1 / 2 < r then n + 1 else if even n then n else n + 1)"

definition dbl_exp :: "rat \<Rightarrow> int" where
  "dbl_exp x = (if 1 \<le> x then bitlen \<lfloor>x\<rfloor> - 1 else - bitlen (\<lceil>1 / x\<rceil> - 1))"

definition dbl_round :: "rat \<Rightarrow> rat" where
  "dbl_round x =
     (if x = 0 then 0
      else let u = 2 powi (dbl_exp \<bar>x\<bar> - 52)
           in sgn x * of_int (round_even (\<bar>x\<bar> / u)) * u)"

definition dbl_div :: "rat \<Rightarrow> rat \<Rightarrow> rat" where
  "dbl_div x y = dbl_round (x / y)"

definition dbl_mul :: "rat \<Rightarrow> rat \<Rightarrow> rat" where
  "dbl_mul x y = dbl_round (x * y)"

definition dbl_add :: "rat \<Rightarrow> rat \<Rightarrow> rat" where
  "dbl_add x y = dbl_round (x + y)"

text \<open>\<open>(double)i\<close> of an \<open>int\<close> is exact; \<open>(uint8_t)x\<close> discards the fraction.\<close>

definition dbl_of_int :: "32 word \<Rightarrow> rat" where
  "dbl_of_int i = of_int (sint i)"

definition dbl_to_uint8 :: "rat \<Rightarrow> 8 word" where
  "dbl_to_uint8 x = word_of_int (if 0 \<le> x then \<lfloor>x\<rfloor> else \<lceil>x\<rceil>)"

text \<open>The unit in the last place of the doubles around a positive \<open>x\<close>.\<close>

definition dbl_ulp :: "rat \<Rightarrow> rat" where
  "dbl_ulp x = 2 powi (dbl_exp x - 52)"

text \<open>
  Every operation rounds once: the documented build, \<open>gcc abs_ecu.c -o abs_ecu\<close>, does
  not fuse the multiplication and the addition at line 372.
\<close>

subsection \<open>Braking decision\<close>

record braking_command =
  bc_state :: "8 word"
  bc_percent :: "8 word"

text \<open>
  Lines 352 to 379 of \<open>main\<close>. The distance is a \<open>uint16_t\<close>; both configuration
  values are \<open>int\<close> and are cast to \<open>uint16_t\<close> in the two comparisons, but not in the
  interpolation.
\<close>

definition decide :: "16 word \<Rightarrow> 8 word \<Rightarrow> 32 word \<Rightarrow> 32 word \<Rightarrow> braking_command" where
  "decide dist_mm status threshold_mm min_distance_mm =
     (if status \<noteq> 0 then \<lparr>bc_state = 0, bc_percent = 0\<rparr>
      else if dist_mm < (ucast threshold_mm :: 16 word) then
        (let brake_percent =
           (if dist_mm \<le> (ucast min_distance_mm :: 16 word) then 100
            else
              let frac = dbl_div (dbl_of_int (threshold_mm - ucast dist_mm))
                                 (dbl_of_int (threshold_mm - min_distance_mm));
                  frac = (if frac < 0 then 0 else frac);
                  frac = (if 1 < frac then 1 else frac)
              in dbl_to_uint8 (dbl_add (dbl_mul frac 100) (1 / 2)))
         in \<lparr>bc_state = (if 0 < brake_percent then 1 else 0), bc_percent = brake_percent\<rparr>)
      else \<lparr>bc_state = 0, bc_percent = 0\<rparr>)"

text \<open>
  Lines 370 to 372 on their own, for the proofs: the two clamps, and the percentage as an
  integer before the cast to \<open>uint8_t\<close>.
\<close>

definition clamp01 :: "rat \<Rightarrow> rat" where
  "clamp01 x = (let y = (if x < 0 then 0 else x) in if 1 < y then 1 else y)"

definition percent_of_frac :: "rat \<Rightarrow> int" where
  "percent_of_frac x = \<lfloor>dbl_add (dbl_mul (clamp01 x) 100) (1 / 2)\<rfloor>"

text \<open>Line 382: the duty cycle in nanoseconds, computed in \<open>unsigned long long\<close>.\<close>

definition duty_ns :: "64 word \<Rightarrow> 8 word \<Rightarrow> 64 word" where
  "duty_ns period_ns brake_percent = (period_ns * ucast brake_percent) div 100"

subsection \<open>Process state, system calls and the sysfs PWM helpers\<close>

text \<open>
  The files the program touches. \<open>PwmDir chip channel\<close> is the channel directory
  \<open>/sys/class/pwm/pwmchip<chip>/pwm<channel>\<close>; \<open>PwmAttr base name\<close> is the file
  \<open>name\<close> under the global \<open>pwm_base_path\<close>, which is empty (\<open>None\<close>) until
  \<open>pwm_set_base\<close> has run.
\<close>

datatype path =
    PwmDir int int
  | PwmExport int
  | PwmUnexport int
  | PwmAttr "(int \<times> int) option" string

datatype io =
    Stat path
  | Write path int
  | Usleep nat
  | Socket
  | Ioctl
  | Bind
  | CanWrite "32 word" "8 word list"
  | Close

text \<open>
  The globals of the program, the number of system calls answered so far and the calls
  made, oldest first. The outside world is an oracle: its value at \<open>n\<close> tells whether the
  call number \<open>n\<close> succeeds (for \<open>stat\<close>: whether the path exists).
\<close>

record sys =
  exported_by_us :: bool
  pwm_enabled :: bool
  pwm_base_path :: "(int \<times> int) option"
  keep_running :: bool
  clock :: nat
  trace :: "io list"

type_synonym world = "nat \<Rightarrow> bool"

definition initial :: sys where
  "initial = \<lparr>exported_by_us = False, pwm_enabled = False, pwm_base_path = None,
              keep_running = True, clock = 0, trace = []\<rparr>"

definition syscall :: "world \<Rightarrow> io \<Rightarrow> sys \<Rightarrow> bool \<times> sys" where
  "syscall env a s = (env (clock s), s\<lparr>clock := clock s + 1, trace := trace s @ [a]\<rparr>)"

text \<open>Calls whose result the program does not read: \<open>usleep\<close>, \<open>close\<close>.\<close>

definition effect :: "io \<Rightarrow> sys \<Rightarrow> sys" where
  "effect a s = s\<lparr>trace := trace s @ [a]\<rparr>"

definition write_sysfs :: "world \<Rightarrow> path \<Rightarrow> int \<Rightarrow> sys \<Rightarrow> int \<times> sys" where
  "write_sysfs env p v s =
     (case syscall env (Write p v) s of (ok, s') \<Rightarrow> (if ok then 0 else - 1, s'))"

definition path_exists :: "world \<Rightarrow> path \<Rightarrow> sys \<Rightarrow> bool \<times> sys" where
  "path_exists env p s = syscall env (Stat p) s"

text \<open>The polling loop of \<open>pwm_ensure_exported\<close>, lines 110 to 114.\<close>

function wait_for_path :: "world \<Rightarrow> path \<Rightarrow> nat \<Rightarrow> sys \<Rightarrow> sys" where
  "wait_for_path env p waited s =
     (case path_exists env p s of
        (ex, s1) \<Rightarrow>
          if \<not> ex \<and> waited < 50 then wait_for_path env p (waited + 1) (effect (Usleep 10000) s1)
          else s1)"
  by pat_completeness auto
termination
  by (relation "measure (\<lambda>(env, p, waited, s). 50 - waited)") auto

declare wait_for_path.simps [simp del]

definition pwm_ensure_exported :: "world \<Rightarrow> int \<Rightarrow> int \<Rightarrow> sys \<Rightarrow> int \<times> sys" where
  "pwm_ensure_exported env chip channel s =
     (case path_exists env (PwmDir chip channel) s of
        (ex, s1) \<Rightarrow>
          if ex then (0, s1)
          else
            case write_sysfs env (PwmExport chip) channel s1 of
              (rc, s2) \<Rightarrow>
                if rc < 0 then (- 1, s2)
                else
                  let s3 = s2\<lparr>exported_by_us := True\<rparr>;
                      s4 = wait_for_path env (PwmDir chip channel) 0 s3
                  in case path_exists env (PwmDir chip channel) s4 of
                       (ex', s5) \<Rightarrow> if \<not> ex' then (- 1, s5) else (0, s5))"

definition pwm_set_base :: "int \<Rightarrow> int \<Rightarrow> sys \<Rightarrow> sys" where
  "pwm_set_base chip channel s = s\<lparr>pwm_base_path := Some (chip, channel)\<rparr>"

definition pwm_set_period_ns :: "world \<Rightarrow> 64 word \<Rightarrow> sys \<Rightarrow> int \<times> sys" where
  "pwm_set_period_ns env period_ns s =
     write_sysfs env (PwmAttr (pwm_base_path s) ''period'') (uint period_ns) s"

definition pwm_set_duty_ns :: "world \<Rightarrow> 64 word \<Rightarrow> sys \<Rightarrow> int \<times> sys" where
  "pwm_set_duty_ns env duty s =
     write_sysfs env (PwmAttr (pwm_base_path s) ''duty_cycle'') (uint duty) s"

definition pwm_set_enable :: "world \<Rightarrow> bool \<Rightarrow> sys \<Rightarrow> int \<times> sys" where
  "pwm_set_enable env enable s =
     (case write_sysfs env (PwmAttr (pwm_base_path s) ''enable'') (if enable then 1 else 0) s of
        (rc, s') \<Rightarrow> (rc, if rc = 0 then s'\<lparr>pwm_enabled := enable\<rparr> else s'))"

definition pwm_cleanup_unexport :: "world \<Rightarrow> int \<Rightarrow> int \<Rightarrow> sys \<Rightarrow> sys" where
  "pwm_cleanup_unexport env chip channel s =
     (if \<not> exported_by_us s then s
      else snd (write_sysfs env (PwmUnexport chip) channel s))"

definition pwm_cleanup_disable :: "world \<Rightarrow> sys \<Rightarrow> sys" where
  "pwm_cleanup_disable env s = (if pwm_enabled s then snd (pwm_set_enable env False s) else s)"

subsection \<open>CAN helpers\<close>

text \<open>
  \<open>can_setup_socket\<close> returns the descriptor or -1; the descriptor's number plays no
  role, it is 3 here.
\<close>

definition can_setup_socket :: "world \<Rightarrow> sys \<Rightarrow> int \<times> sys" where
  "can_setup_socket env s =
     (case syscall env Socket s of
        (ok1, s1) \<Rightarrow>
          if \<not> ok1 then (- 1, s1)
          else
            case syscall env Ioctl s1 of
              (ok2, s2) \<Rightarrow>
                if \<not> ok2 then (- 1, effect Close s2)
                else
                  case syscall env Bind s2 of
                    (ok3, s3) \<Rightarrow> if \<not> ok3 then (- 1, effect Close s3) else (3, s3))"

definition BRAKE_CAN_ID :: "32 word" where
  "BRAKE_CAN_ID = 0x200"

definition ULTRASONIC_CAN_ID :: "32 word" where
  "ULTRASONIC_CAN_ID = 0x100"

text \<open>
  Modelled from the spec: the flag and the mask of \<open>linux/can.h\<close>, which is not
  part of the repository, select standard (non-extended) addressing and the 11-bit
  identifier.
\<close>

definition CAN_EFF_FLAG :: "32 word" where
  "CAN_EFF_FLAG = 0x80000000"

definition CAN_SFF_MASK :: "32 word" where
  "CAN_SFF_MASK = 0x7FF"

definition can_send_brake :: "world \<Rightarrow> 8 word \<Rightarrow> 8 word \<Rightarrow> sys \<Rightarrow> int \<times> sys" where
  "can_send_brake env state percent s =
     (case syscall env (CanWrite BRAKE_CAN_ID (encode_status state percent)) s of
        (ok, s') \<Rightarrow> (if ok then 0 else - 1, s'))"

subsection \<open>Shutdown flag, configuration and the control loop\<close>

definition handle_sigint :: "sys \<Rightarrow> sys" where
  "handle_sigint s = s\<lparr>keep_running := False\<rparr>"

text \<open>The configuration that the argument loop of \<open>main\<close> resolves, with its defaults.\<close>

record config =
  cfg_pwm_chip :: int
  cfg_pwm_channel :: int
  cfg_period_ns :: "64 word"
  cfg_threshold_mm :: "32 word"
  cfg_min_distance_mm :: "32 word"

definition default_config :: config where
  "default_config = \<lparr>cfg_pwm_chip = 0, cfg_pwm_channel = 0, cfg_period_ns = 1000000,
                     cfg_threshold_mm = 300, cfg_min_distance_mm = 50\<rparr>"

record can_frame =
  can_id :: "32 word"
  can_dlc :: "8 word"
  can_data :: "8 word list"

text \<open>
  What one \<open>read\<close> on the socket returns: an error (the flag tells whether \<open>errno\<close>
  is \<open>EINTR\<close>), fewer bytes than a frame, or a frame. \<open>Signal\<close> is a SIGINT or
  SIGTERM whose handler has run by the next loop test; a signal that interrupts a blocked
  \<open>read\<close> is that read's \<open>EINTR\<close> result followed by \<open>Signal\<close>.
\<close>

datatype rx = RxError bool | RxShort | RxFrame can_frame

datatype event = Signal | Receive rx

text \<open>Lines 324 to 395: the loop body once a whole frame has been read.\<close>

definition handle_frame :: "world \<Rightarrow> config \<Rightarrow> can_frame \<Rightarrow> sys \<Rightarrow> sys" where
  "handle_frame env cfg frame s =
     (if can_id frame AND CAN_EFF_FLAG \<noteq> 0 \<or> can_dlc frame \<noteq> 8 then s
      else if can_id frame AND CAN_SFF_MASK \<noteq> ULTRASONIC_CAN_ID then s
      else
        case decode_telemetry (can_data frame) of
          Inl err \<Rightarrow>
            (let s1 = (if pwm_enabled s then snd (pwm_set_duty_ns env 0 s) else s)
             in snd (can_send_brake env 0 0 s1))
        | Inr t \<Rightarrow>
            (let cmd = decide (tf_distance_mm t) (tf_status t)
                         (cfg_threshold_mm cfg) (cfg_min_distance_mm cfg);
                 s1 = snd (pwm_set_duty_ns env (duty_ns (cfg_period_ns cfg) (bc_percent cmd)) s)
             in snd (can_send_brake env (bc_state cmd) (bc_percent cmd) s1)))"

text \<open>
  The loop of \<open>main\<close> over the events that reach the process. It is left when the flag
  is found cleared at the loop test or when a read fails with an error other than
  \<open>EINTR\<close>; when the events are used up and the flag is still set, the process is
  blocked in \<open>read\<close>.
\<close>

datatype loop_result = Stopped | ReadFailed | Blocked

fun main_loop :: "world \<Rightarrow> config \<Rightarrow> event list \<Rightarrow> sys \<Rightarrow> loop_result \<times> sys" where
  "main_loop env cfg [] s = (if keep_running s then Blocked else Stopped, s)"
| "main_loop env cfg (Signal # es) s = main_loop env cfg es (handle_sigint s)"
| "main_loop env cfg (Receive r # es) s =
     (if \<not> keep_running s then (Stopped, s)
      else
        case r of
          RxError eintr \<Rightarrow> if eintr then main_loop env cfg es s else (ReadFailed, s)
        | RxShort \<Rightarrow> main_loop env cfg es s
        | RxFrame frame \<Rightarrow> main_loop env cfg es (handle_frame env cfg frame s))"

text \<open>
  \<open>main\<close> from line 269 on, for a resolved configuration, in three parts. \<open>main_setup\<close>
  is lines 269 to 307: it ends with the exit code of an early \<open>return\<close> (\<open>Inl\<close>) or
  with the state in which the loop is entered. \<open>teardown\<close> is the pair of cleanup calls
  made at lines 304 to 305 and again at lines 400 to 401. The result of \<open>main\<close> is the
  exit code, or \<open>Running\<close> when the process is still blocked in the loop after the
  given events.
\<close>

datatype outcome = Exit int | Running

definition teardown :: "world \<Rightarrow> config \<Rightarrow> sys \<Rightarrow> sys" where
  "teardown env cfg s =
     pwm_cleanup_unexport env (cfg_pwm_chip cfg) (cfg_pwm_channel cfg) (pwm_cleanup_disable env s)"

definition main_setup :: "world \<Rightarrow> config \<Rightarrow> (int \<times> sys) + sys" where
  "main_setup env cfg =
     (if sint (cfg_threshold_mm cfg) \<le> sint (cfg_min_distance_mm cfg) then Inl (1, initial)
      else
        (case pwm_ensure_exported env (cfg_pwm_chip cfg) (cfg_pwm_channel cfg) initial of
           (rc, s1) \<Rightarrow>
             if rc < 0 then Inl (1, s1)
             else
               (let s2 = pwm_set_base (cfg_pwm_chip cfg) (cfg_pwm_channel cfg) s1;
                    s3 = snd (pwm_set_enable env False s2);
                    s4 = snd (pwm_set_period_ns env (cfg_period_ns cfg) s3);
                    s5 = snd (pwm_set_duty_ns env 0 s4);
                    (rc_en, s5') = pwm_set_enable env True s5;
                    s6 = (if rc_en < 0 then s5' else s5'\<lparr>pwm_enabled := True\<rparr>);
                    (can_sock, s7) = can_setup_socket env s6
                in if can_sock < 0 then Inl (1, teardown env cfg s7) else Inr s7)))"

definition main :: "world \<Rightarrow> config \<Rightarrow> event list \<Rightarrow> outcome \<times> sys" where
  "main env cfg events =
     (case main_setup env cfg of
        Inl (code, s) \<Rightarrow> (Exit code, s)
      | Inr s7 \<Rightarrow>
          (case main_loop env cfg events s7 of
             (Blocked, s8) \<Rightarrow> (Running, s8)
           | (Stopped, s8) \<Rightarrow> (Exit 0, effect Close (teardown env cfg s8))
           | (ReadFailed, s8) \<Rightarrow> (Exit 0, effect Close (teardown env cfg s8))))"

section \<open>The CRC of the code is the CRC of the specification\<close>

lemma crc_test_bit7: "(crc AND 0x80 \<noteq> 0) = bit (crc :: 8 word) 7"
proof -
  have "(crc AND 2 ^ 7 \<noteq> 0) = bit crc 7"
    by (simp only: and_exp_eq_0_iff_not_bit) simp
  then show ?thesis by simp
qed

lemma crc8_bits_Suc: "crc8_bits (Suc b) crc = crc8_bits b (crc_shift crc)"
  by (simp add: crc_shift_def crc_test_bit7)

text \<open>The shift is linear over exclusive or, which is all the comparison needs.\<close>

lemma crc_shift_xor: "crc_shift (x XOR y) = crc_shift x XOR crc_shift y"
  by (simp add: crc_shift_def bit_xor_iff ac_simps)

lemma crc_shift_if: "crc_shift (if b then c else 0) = (if b then crc_shift c else 0)"
  by (simp add: crc_shift_def)

lemma crc_step_shift: "crc_step reg b = crc_shift (reg XOR (if b then 0x80 else 0))"
proof (cases b)
  case True
  have "crc_shift (0x80 :: 8 word) = 7" by (simp add: crc_shift_def)
  then show ?thesis
    using True by (simp add: crc_shift_xor) (simp add: crc_step_def crc_shift_def xor.assoc)
next
  case False
  then show ?thesis by (simp add: crc_step_def crc_shift_def)
qed

lemma byte_as_bits:
  "(d :: 8 word) =
     (if bit d 7 then 2 ^ 7 else 0) XOR (if bit d 6 then 2 ^ 6 else 0) XOR
     (if bit d 5 then 2 ^ 5 else 0) XOR (if bit d 4 then 2 ^ 4 else 0) XOR
     (if bit d 3 then 2 ^ 3 else 0) XOR (if bit d 2 then 2 ^ 2 else 0) XOR
     (if bit d 1 then 2 ^ 1 else 0) XOR (if bit d 0 then 2 ^ 0 else 0)"
  apply (rule bit_word_eqI)
  apply (simp only: bit_xor_iff if_distrib [of "\<lambda>w. bit w _"] bit_exp_iff bit_0_eq)
  apply (auto simp add: less_Suc_eq numeral_eq_Suc)
  done

lemma crc8_bits_8: "crc8_bits 8 x = crc_shift8 x"
proof -
  have "crc8_bits (Suc (Suc (Suc (Suc (Suc (Suc (Suc (Suc 0)))))))) x = crc_shift8 x"
    by (simp only: crc8_bits_Suc crc8_bits.simps(1) crc_shift8_def)
  then show ?thesis by (simp add: eval_nat_numeral)
qed

lemma crc_shift8_xor: "crc_shift8 (x XOR y) = crc_shift8 x XOR crc_shift8 y"
  by (simp add: crc_shift8_def crc_shift_xor)

lemma crc_shift_table:
  "crc_shift 1 = 2" "crc_shift 2 = 4" "crc_shift 4 = 8" "crc_shift 8 = 16"
  "crc_shift 16 = 32" "crc_shift 32 = 64" "crc_shift 64 = 128" "crc_shift 128 = 7"
  "crc_shift 7 = 14" "crc_shift 14 = 28" "crc_shift 28 = 56" "crc_shift 56 = 112"
  "crc_shift 112 = 224" "crc_shift 224 = 199" "crc_shift 199 = 137"
  by (simp_all add: crc_shift_def)

lemma crc_shift8_byte:
  "crc_shift8 d =
     (if bit d 7 then 137 else 0) XOR (if bit d 6 then 199 else 0) XOR
     (if bit d 5 then 224 else 0) XOR (if bit d 4 then 112 else 0) XOR
     (if bit d 3 then 56 else 0) XOR (if bit d 2 then 28 else 0) XOR
     (if bit d 1 then 14 else 0) XOR (if bit d 0 then 7 else 0)"
proof -
  have "crc_shift8 d = crc_shift8
     ((if bit d 7 then 2 ^ 7 else 0) XOR (if bit d 6 then 2 ^ 6 else 0) XOR
      (if bit d 5 then 2 ^ 5 else 0) XOR (if bit d 4 then 2 ^ 4 else 0) XOR
      (if bit d 3 then 2 ^ 3 else 0) XOR (if bit d 2 then 2 ^ 2 else 0) XOR
      (if bit d 1 then 2 ^ 1 else 0) XOR (if bit d 0 then 2 ^ 0 else 0))"
    by (rule arg_cong [OF byte_as_bits])
  also have "\<dots> =
     (if bit d 7 then 137 else 0) XOR (if bit d 6 then 199 else 0) XOR
     (if bit d 5 then 224 else 0) XOR (if bit d 4 then 112 else 0) XOR
     (if bit d 3 then 56 else 0) XOR (if bit d 2 then 28 else 0) XOR
     (if bit d 1 then 14 else 0) XOR (if bit d 0 then 7 else 0)"
    unfolding crc_shift8_xor by (simp add: crc_shift8_def crc_shift_if crc_shift_table)
  finally show ?thesis .
qed

lemma crc8_byte: "crc8_bits 8 (crc XOR d) = foldl crc_step crc (msb_first d)"
proof -
  have "foldl crc_step crc (msb_first d) = crc_shift8 crc XOR
     ((if bit d 7 then 137 else 0) XOR (if bit d 6 then 199 else 0) XOR
      (if bit d 5 then 224 else 0) XOR (if bit d 4 then 112 else 0) XOR
      (if bit d 3 then 56 else 0) XOR (if bit d 2 then 28 else 0) XOR
      (if bit d 1 then 14 else 0) XOR (if bit d 0 then 7 else 0))"
    by (simp add: msb_first_def crc_step_shift crc_shift_xor crc_shift_if crc_shift_table
          crc_shift8_def xor.assoc)
  moreover have "crc8_bits 8 (crc XOR d) = crc_shift8 crc XOR crc_shift8 d"
    by (simp only: crc8_bits_8 crc_shift8_xor)
  ultimately show ?thesis
    by (simp only: crc_shift8_byte [of d])
qed

lemma crc8_bytes_foldl: "crc8_bytes ds crc = foldl crc_step crc (concat (map msb_first ds))"
  by (induction ds arbitrary: crc) (simp_all add: crc8_byte del: crc8_bits.simps)

lemma crc8_refines: "crc8 data len = crc8_poly07 (take len data)"
  by (simp add: crc8_def crc8_poly07_def crc8_bytes_foldl)

text \<open>The check value of the ASCII digits 1 to 9 for this CRC is 0xF4.\<close>

lemma crc8_check_value:
  "crc8 [0x31, 0x32, 0x33, 0x34, 0x35, 0x36, 0x37, 0x38, 0x39] 9 = 0xF4"
  by (simp add: crc8_refines crc8_poly07_def msb_first_def crc_step_def)

lemma crc8_poly07_150mm: "crc8_poly07 [0x00, 0x96, 0x01, 0x00, 0x00, 0x00, 0x00] = 230"
  by (simp add: crc8_poly07_def msb_first_def crc_step_def)

section \<open>Frame codec\<close>

lemma big_endian_16:
  "unat (push_bit 8 (ucast (b0 :: 8 word)) OR ucast (b1 :: 8 word) :: 16 word) =
     256 * unat b0 + unat b1"
proof -
  have disj: "(push_bit 8 (ucast b0) :: 16 word) AND ucast b1 = 0"
    by (rule bit_word_eqI) (auto simp add: bit_simps dest: bit_imp_le_length)
  have b0: "unat b0 < 256" using unsigned_less [of b0, where 'a = nat] by simp
  have b1: "unat b1 < 256" using unsigned_less [of b1, where 'a = nat] by simp
  have "push_bit 8 (ucast b0) OR ucast b1 = (push_bit 8 (ucast b0) :: 16 word) + ucast b1"
    by (rule disjunctive_add_eq_or [OF disj, symmetric])
  then have "unat (push_bit 8 (ucast b0) OR ucast b1 :: 16 word) =
      unat ((push_bit 8 (ucast b0) :: 16 word) + ucast b1)"
    by simp
  also have "\<dots> = 256 * unat b0 + unat b1"
    using b0 b1
    by (simp add: unat_word_ariths unsigned_ucast_eq unsigned_push_bit_eq take_bit_eq_mod
          push_bit_eq_mult)
  finally show ?thesis .
qed

text \<open>
  Claim C3. For every payload of eight bytes, decoding reports an integrity error if and
  only if byte 7 differs from the CRC8 (polynomial 0x07, most significant bit first,
  initial value 0) of bytes 0 to 6, and the error carries the received and the computed
  check byte. Otherwise the decoded distance is byte 0 times 256 plus byte 1, the counter
  is byte 2 and the status is byte 3.
\<close>

theorem decode_telemetry_integrity:
  "length data = 8 \<Longrightarrow>
     ((\<exists>e. decode_telemetry data = Inl e) \<longleftrightarrow> data ! 7 \<noteq> crc8_poly07 (take 7 data)) \<and>
     (data ! 7 \<noteq> crc8_poly07 (take 7 data) \<longrightarrow>
        decode_telemetry data = Inl (IntegrityError (data ! 7) (crc8_poly07 (take 7 data)))) \<and>
     (data ! 7 = crc8_poly07 (take 7 data) \<longrightarrow>
        (\<exists>t. decode_telemetry data = Inr t \<and>
             unat (tf_distance_mm t) = 256 * unat (data ! 0) + unat (data ! 1) \<and>
             tf_counter t = data ! 2 \<and> tf_status t = data ! 3))"
  by (auto simp add: decode_telemetry_def crc8_refines big_endian_16)

theorem decode_telemetry_integrity_witness:
  "length [0x00, 0x96, 0x01, 0x00, 0x00, 0x00, 0x00, 230 :: 8 word] = 8 \<and>
   decode_telemetry [0x00, 0x96, 0x01, 0x00, 0x00, 0x00, 0x00, 230] =
     Inr \<lparr>tf_distance_mm = 150, tf_counter = 1, tf_status = 0\<rparr> \<and>
   (\<exists>e. decode_telemetry [0x00, 0x96, 0x01, 0x00, 0x00, 0x00, 0x00, 231] = Inl e)"
  using decode_telemetry_integrity [of "[0x00, 0x96, 0x01, 0x00, 0x00, 0x00, 0x00, 230]"]
    decode_telemetry_integrity [of "[0x00, 0x96, 0x01, 0x00, 0x00, 0x00, 0x00, 231]"]
  by (simp add: crc8_poly07_150mm)
     (simp add: decode_telemetry_def crc8_refines crc8_poly07_150mm)

text \<open>
  Claim C7, as stated, fails: \<open>can_send_brake\<close> copies the percentage into byte 1 and
  does not clamp it. For state 1 and percent 150 the second byte is 150, not 100.
\<close>

theorem encode_status_clamp_counterexample:
  "encode_status 1 150 = [1, 150] \<and> encode_status 1 150 ! 1 \<noteq> 100"
  by (simp add: encode_status_def)

text \<open>
  Claim C7, amended. The frame that \<open>can_send_brake\<close> writes has the identifier 0x200
  and two payload bytes: byte 0 is 1 if the state is not zero and 0 otherwise, byte 1 is
  the percentage unchanged. For a percentage of at most 100 this is the clamped value.
\<close>

theorem can_send_brake_payload:
  "trace (snd (can_send_brake env state percent s)) =
     trace s @ [CanWrite 0x200 [if state \<noteq> 0 then 1 else 0, percent]] \<and>
   (percent \<le> 100 \<longrightarrow> encode_status state percent ! 1 = min percent 100)"
  by (simp add: can_send_brake_def syscall_def encode_status_def BRAKE_CAN_ID_def
        split: prod.splits)

theorem can_send_brake_payload_witness:
  "trace (snd (can_send_brake (\<lambda>n. True) 1 60 initial)) = [CanWrite 0x200 [1, 60]] \<and>
   (60 :: 8 word) \<le> 100 \<and> encode_status 1 60 ! 1 = min 60 100"
  using can_send_brake_payload [of "\<lambda>n. True" 1 60 initial]
  by (simp add: initial_def)

section \<open>System calls and the control loop\<close>

lemma write_sysfs_state:
  "snd (write_sysfs env p v s) = s\<lparr>clock := clock s + 1, trace := trace s @ [Write p v]\<rparr>"
  by (simp add: write_sysfs_def syscall_def)

lemma write_sysfs_result: "fst (write_sysfs env p v s) = (if env (clock s) then 0 else - 1)"
  by (simp add: write_sysfs_def syscall_def)

lemma pwm_set_enable_state:
  "snd (pwm_set_enable env enable s) =
     s\<lparr>pwm_enabled := (if env (clock s) then enable else pwm_enabled s),
       clock := clock s + 1,
       trace := trace s @ [Write (PwmAttr (pwm_base_path s) ''enable'') (if enable then 1 else 0)]\<rparr>"
  by (simp add: pwm_set_enable_def write_sysfs_def syscall_def)

lemma pwm_cleanup_disable_state:
  "pwm_cleanup_disable env s =
     (if pwm_enabled s
      then s\<lparr>pwm_enabled := \<not> env (clock s), clock := clock s + 1,
             trace := trace s @ [Write (PwmAttr (pwm_base_path s) ''enable'') 0]\<rparr>
      else s)"
  by (simp add: pwm_cleanup_disable_def pwm_set_enable_state)

lemma pwm_cleanup_unexport_state:
  "pwm_cleanup_unexport env chip channel s =
     (if exported_by_us s
      then s\<lparr>clock := clock s + 1, trace := trace s @ [Write (PwmUnexport chip) channel]\<rparr>
      else s)"
  by (simp add: pwm_cleanup_unexport_def write_sysfs_state)

lemma pwm_set_duty_ns_state:
  "snd (pwm_set_duty_ns env duty s) =
     s\<lparr>clock := clock s + 1,
       trace := trace s @ [Write (PwmAttr (pwm_base_path s) ''duty_cycle'') (uint duty)]\<rparr>"
  by (simp add: pwm_set_duty_ns_def write_sysfs_state)

lemma can_send_brake_state:
  "snd (can_send_brake env state percent s) =
     s\<lparr>clock := clock s + 1,
       trace := trace s @ [CanWrite BRAKE_CAN_ID (encode_status state percent)]\<rparr>"
  by (simp add: can_send_brake_def syscall_def)

text \<open>
  Claim C2. A frame that passes the identifier and length filter and whose byte 7 is not
  the CRC8 of bytes 0 to 6 makes the loop body write the duty cycle 0 (only if the PWM is
  marked enabled) and send the status frame 0x200 with payload 0, 0. Neither depends on
  any byte of the frame, and the loop goes on with the next event: the corrupted frame
  does not end it.
\<close>

theorem corrupted_frame_fail_safe:
  "can_id frame AND CAN_EFF_FLAG = 0 \<Longrightarrow> can_dlc frame = 8 \<Longrightarrow>
   can_id frame AND CAN_SFF_MASK = ULTRASONIC_CAN_ID \<Longrightarrow>
   length (can_data frame) = 8 \<Longrightarrow>
   can_data frame ! 7 \<noteq> crc8_poly07 (take 7 (can_data frame)) \<Longrightarrow>
   keep_running s \<Longrightarrow>
     handle_frame env cfg frame s =
       s\<lparr>clock := clock s + (if pwm_enabled s then 2 else 1),
         trace := trace s @
           (if pwm_enabled s then [Write (PwmAttr (pwm_base_path s) ''duty_cycle'') 0] else []) @
           [CanWrite 0x200 [0, 0]]\<rparr> \<and>
     main_loop env cfg (Receive (RxFrame frame) # es) s =
       main_loop env cfg es (handle_frame env cfg frame s)"
  by (simp add: handle_frame_def decode_telemetry_def crc8_refines pwm_set_duty_ns_state
        can_send_brake_state encode_status_def BRAKE_CAN_ID_def)

theorem corrupted_frame_fail_safe_witness:
  "main_loop (\<lambda>n. True) default_config
     [Receive (RxFrame \<lparr>can_id = 0x100, can_dlc = 8,
        can_data = [0x00, 0x96, 0x01, 0x00, 0x00, 0x00, 0x00, 0xFF]\<rparr>)]
     (initial\<lparr>pwm_enabled := True\<rparr>) =
   (Blocked, initial\<lparr>pwm_enabled := True, clock := 2,
      trace := [Write (PwmAttr None ''duty_cycle'') 0, CanWrite 0x200 [0, 0]]\<rparr>)"
  using corrupted_frame_fail_safe [of "\<lparr>can_id = 0x100, can_dlc = 8,
        can_data = [0x00, 0x96, 0x01, 0x00, 0x00, 0x00, 0x00, 0xFF]\<rparr>"
        "initial\<lparr>pwm_enabled := True\<rparr>" "\<lambda>n. True" default_config "[]"]
  by (simp add: CAN_EFF_FLAG_def CAN_SFF_MASK_def ULTRASONIC_CAN_ID_def crc8_poly07_150mm
        initial_def)

text \<open>
  Claim C10. Two accepted frames with valid CRC that agree on bytes 0, 1 and 3 lead to
  the same state: the same braking command, the same duty cycle written and the same
  status frame sent, whatever their counter (byte 2) and reserved bytes (4 to 6) are.
\<close>

theorem unused_fields_noninterference:
  "can_id f1 AND CAN_EFF_FLAG = 0 \<Longrightarrow> can_dlc f1 = 8 \<Longrightarrow>
   can_id f1 AND CAN_SFF_MASK = ULTRASONIC_CAN_ID \<Longrightarrow>
   can_id f2 AND CAN_EFF_FLAG = 0 \<Longrightarrow> can_dlc f2 = 8 \<Longrightarrow>
   can_id f2 AND CAN_SFF_MASK = ULTRASONIC_CAN_ID \<Longrightarrow>
   length (can_data f1) = 8 \<Longrightarrow> length (can_data f2) = 8 \<Longrightarrow>
   can_data f1 ! 7 = crc8_poly07 (take 7 (can_data f1)) \<Longrightarrow>
   can_data f2 ! 7 = crc8_poly07 (take 7 (can_data f2)) \<Longrightarrow>
   can_data f1 ! 0 = can_data f2 ! 0 \<Longrightarrow> can_data f1 ! 1 = can_data f2 ! 1 \<Longrightarrow>
   can_data f1 ! 3 = can_data f2 ! 3 \<Longrightarrow>
     handle_frame env cfg f2 s = handle_frame env cfg f1 s \<and>
     handle_frame env cfg f1 s =
       (let cmd = decide (push_bit 8 (ucast (can_data f1 ! 0)) OR ucast (can_data f1 ! 1))
                    (can_data f1 ! 3) (cfg_threshold_mm cfg) (cfg_min_distance_mm cfg)
        in s\<lparr>clock := clock s + 2,
             trace := trace s @
               [Write (PwmAttr (pwm_base_path s) ''duty_cycle'')
                  (uint (duty_ns (cfg_period_ns cfg) (bc_percent cmd))),
                CanWrite 0x200 (encode_status (bc_state cmd) (bc_percent cmd))]\<rparr>)"
  by (simp add: handle_frame_def decode_telemetry_def crc8_refines pwm_set_duty_ns_state
        can_send_brake_state BRAKE_CAN_ID_def Let_def)

lemma crc8_poly07_150mm_other:
  "crc8_poly07 [0x00, 0x96, 0x02, 0x00, 0x55, 0x00, 0x00] = 164"
  by (simp add: crc8_poly07_def msb_first_def crc_step_def)

theorem unused_fields_noninterference_witness:
  "handle_frame (\<lambda>n. True) default_config
     \<lparr>can_id = 0x100, can_dlc = 8, can_data = [0x00, 0x96, 0x02, 0x00, 0x55, 0x00, 0x00, 164]\<rparr>
     initial =
   handle_frame (\<lambda>n. True) default_config
     \<lparr>can_id = 0x100, can_dlc = 8, can_data = [0x00, 0x96, 0x01, 0x00, 0x00, 0x00, 0x00, 230]\<rparr>
     initial"
  using unused_fields_noninterference [of
     "\<lparr>can_id = 0x100, can_dlc = 8, can_data = [0x00, 0x96, 0x01, 0x00, 0x00, 0x00, 0x00, 230]\<rparr>"
     "\<lparr>can_id = 0x100, can_dlc = 8, can_data = [0x00, 0x96, 0x02, 0x00, 0x55, 0x00, 0x00, 164]\<rparr>"
     "\<lambda>n. True" default_config initial]
  by (simp add: CAN_EFF_FLAG_def CAN_SFF_MASK_def ULTRASONIC_CAN_ID_def crc8_poly07_150mm
        crc8_poly07_150mm_other)

text \<open>
  Three frames in a row, with the PWM enabled: a valid one at 400 mm, a valid one at 50 mm
  and one with a wrong check byte. The status frames are 0, 0 then 1, 100 then 0, 0, and
  the last duty cycle written is 0.
\<close>

lemma end_to_end_three_frames:
  "main_loop (\<lambda>n. True) default_config
     [Receive (RxFrame \<lparr>can_id = 0x100, can_dlc = 8,
        can_data = [0x01, 0x90, 0x01, 0x00, 0x00, 0x00, 0x00, 207]\<rparr>),
      Receive (RxFrame \<lparr>can_id = 0x100, can_dlc = 8,
        can_data = [0x00, 0x32, 0x02, 0x00, 0x00, 0x00, 0x00, 51]\<rparr>),
      Receive (RxFrame \<lparr>can_id = 0x100, can_dlc = 8,
        can_data = [0x00, 0x32, 0x03, 0x00, 0x00, 0x00, 0x00, 0]\<rparr>)]
     (initial\<lparr>pwm_enabled := True, pwm_base_path := Some (0, 0)\<rparr>) =
   (Blocked,
    initial\<lparr>pwm_enabled := True, pwm_base_path := Some (0, 0), clock := 6,
      trace :=
        [Write (PwmAttr (Some (0, 0)) ''duty_cycle'') 0, CanWrite 0x200 [0, 0],
         Write (PwmAttr (Some (0, 0)) ''duty_cycle'') 1000000, CanWrite 0x200 [1, 100],
         Write (PwmAttr (Some (0, 0)) ''duty_cycle'') 0, CanWrite 0x200 [0, 0]]\<rparr>)"
  by code_simp

section \<open>Teardown\<close>

text \<open>
  Claim C6, as stated, fails: \<open>exported_by_us\<close> is never cleared, so a second
  teardown writes to \<open>unexport\<close> a second time.
\<close>

theorem teardown_twice_counterexample:
  "trace (teardown (\<lambda>n. True) default_config
            (teardown (\<lambda>n. True) default_config
               (initial\<lparr>exported_by_us := True, pwm_enabled := True\<rparr>))) =
     [Write (PwmAttr None ''enable'') 0, Write (PwmUnexport 0) 0, Write (PwmUnexport 0) 0]"
  by (simp add: teardown_def pwm_cleanup_disable_state pwm_cleanup_unexport_state
        initial_def default_config_def)

text \<open>
  Claim C6, amended. From a torn-down state in which the PWM is marked disabled, a second
  teardown leaves every global as it was and does not write to \<open>enable\<close> again; it
  repeats the write to \<open>unexport\<close> exactly when the export is owned, and writes
  nothing otherwise.
\<close>

theorem teardown_twice:
  "\<not> pwm_enabled (teardown env cfg s) \<Longrightarrow>
     exported_by_us (teardown env cfg (teardown env cfg s)) = exported_by_us (teardown env cfg s) \<and>
     pwm_enabled (teardown env cfg (teardown env cfg s)) = pwm_enabled (teardown env cfg s) \<and>
     pwm_base_path (teardown env cfg (teardown env cfg s)) = pwm_base_path (teardown env cfg s) \<and>
     keep_running (teardown env cfg (teardown env cfg s)) = keep_running (teardown env cfg s) \<and>
     trace (teardown env cfg (teardown env cfg s)) =
       trace (teardown env cfg s) @
         (if exported_by_us s then [Write (PwmUnexport (cfg_pwm_chip cfg)) (cfg_pwm_channel cfg)]
          else [])"
  by (simp add: teardown_def pwm_cleanup_disable_state pwm_cleanup_unexport_state
        split: if_splits)

theorem teardown_twice_witness:
  "\<not> pwm_enabled (teardown (\<lambda>n. True) default_config (initial\<lparr>pwm_enabled := True\<rparr>)) \<and>
   trace (teardown (\<lambda>n. True) default_config
            (teardown (\<lambda>n. True) default_config (initial\<lparr>pwm_enabled := True\<rparr>))) =
     [Write (PwmAttr None ''enable'') 0]"
  using teardown_twice [of "\<lambda>n. True" default_config "initial\<lparr>pwm_enabled := True\<rparr>"]
  by (simp add: teardown_def pwm_cleanup_disable_state pwm_cleanup_unexport_state initial_def)

section \<open>Exit code\<close>

lemma handle_frame_keep_running: "keep_running (handle_frame env cfg frame s) = keep_running s"
  by (simp add: handle_frame_def pwm_set_duty_ns_def write_sysfs_state can_send_brake_def
        syscall_def Let_def split: sum.splits)

lemma handle_sigint_stopped: "\<not> keep_running s \<Longrightarrow> handle_sigint s = s"
  by (simp add: handle_sigint_def)

lemma main_loop_stopped: "\<not> keep_running s \<Longrightarrow> main_loop env cfg es s = (Stopped, s)"
proof (induction es)
  case Nil
  then show ?case by simp
next
  case (Cons e es)
  then show ?case by (cases e) (simp_all add: handle_sigint_stopped)
qed

lemma main_loop_signal: "main_loop env cfg (Signal # es) s = (Stopped, handle_sigint s)"
  by (simp add: main_loop_stopped handle_sigint_def)

lemma main_loop_fatal_read:
  "keep_running s \<Longrightarrow> main_loop env cfg (Receive (RxError False) # es) s = (ReadFailed, s)"
  by simp

lemma syscall_keep_running: "keep_running (snd (syscall env a s)) = keep_running s"
  by (simp add: syscall_def)

lemma wait_for_path_keep_running:
  "keep_running (wait_for_path env p waited s) = keep_running s"
proof (induction env p waited s rule: wait_for_path.induct)
  case (1 env p waited s)
  show ?case
    using "1.IH" [of "env (clock s)" "snd (path_exists env p s)"]
    by (subst wait_for_path.simps) (simp add: path_exists_def syscall_def effect_def)
qed

lemma pwm_ensure_exported_keep_running:
  "keep_running (snd (pwm_ensure_exported env chip channel s)) = keep_running s"
  by (simp add: pwm_ensure_exported_def path_exists_def syscall_def write_sysfs_def
        wait_for_path_keep_running Let_def split: prod.splits)

lemma can_setup_socket_keep_running:
  "keep_running (snd (can_setup_socket env s)) = keep_running s"
  by (simp add: can_setup_socket_def syscall_def effect_def split: prod.splits)

lemma pwm_set_enable_keep_running:
  "keep_running (snd (pwm_set_enable env enable s)) = keep_running s"
  by (simp add: pwm_set_enable_state)

lemma write_sysfs_keep_running: "keep_running (snd (write_sysfs env p v s)) = keep_running s"
  by (simp add: write_sysfs_state)

lemma main_setup_keep_running: "main_setup env cfg = Inr s \<Longrightarrow> keep_running s"
  by (auto simp add: main_setup_def Let_def case_prod_beta pwm_set_base_def
        pwm_set_period_ns_def pwm_set_duty_ns_def
        can_setup_socket_keep_running pwm_set_enable_keep_running write_sysfs_keep_running
        pwm_ensure_exported_keep_running initial_def
        split: if_splits)

lemma main_setup_code: "main_setup env cfg = Inl r \<Longrightarrow> fst r = 1"
  by (auto simp add: main_setup_def Let_def case_prod_beta split: if_splits)

text \<open>
  Claim C5 fails on the code. With every system call succeeding and a read error other
  than \<open>EINTR\<close> as the first event, the loop is left by \<open>break\<close> and \<open>main\<close>
  returns 0, where every failure during setup returns 1.
\<close>

theorem fatal_read_exits_zero:
  "fst (main (\<lambda>n. True) default_config [Receive (RxError False)]) = Exit 0"
  by (simp add: main_def main_setup_def default_config_def pwm_ensure_exported_def
        path_exists_def syscall_def initial_def pwm_set_base_def pwm_set_enable_def
        write_sysfs_def pwm_set_period_ns_def pwm_set_duty_ns_def can_setup_socket_def
        Let_def)

text \<open>
  The exit code in general. It is 1 exactly when setup fails. It is 0 exactly when setup
  succeeded and the loop has ended, whether the cleared flag was seen at the loop test or
  a read failed with an error other than \<open>EINTR\<close>.
\<close>

lemma main_exit_code:
  "(fst (main env cfg events) = Exit 1 \<longleftrightarrow> (\<exists>r. main_setup env cfg = Inl r)) \<and>
   (fst (main env cfg events) = Exit 0 \<longleftrightarrow>
      (\<exists>s. main_setup env cfg = Inr s \<and>
           (fst (main_loop env cfg events s) = Stopped \<or>
            fst (main_loop env cfg events s) = ReadFailed))) \<and>
   (fst (main env cfg events) = Running \<longleftrightarrow>
      (\<exists>s. main_setup env cfg = Inr s \<and> fst (main_loop env cfg events s) = Blocked)) \<and>
   (\<forall>s. main_setup env cfg = Inr s \<longrightarrow>
      fst (main env cfg (Receive (RxError False) # es)) = Exit 0 \<and>
      fst (main env cfg (Signal # es)) = Exit 0)"
proof -
  show ?thesis
  proof (cases "main_setup env cfg")
    case (Inl r)
    then show ?thesis
      using main_setup_code [OF Inl] by (cases r) (simp add: main_def)
  next
    case (Inr s)
    have k: "keep_running s" using Inr by (rule main_setup_keep_running)
    obtain res s' where l: "main_loop env cfg events s = (res, s')"
      by (cases "main_loop env cfg events s")
    show ?thesis
      using Inr l k
      by (cases res) (simp_all add: main_def main_loop_stopped handle_sigint_def)
  qed
qed

lemma main_exit_code_example:
  "(\<exists>s. main_setup (\<lambda>n. True) default_config = Inr s) \<and>
   fst (main (\<lambda>n. True) default_config [Signal]) = Exit 0 \<and>
   fst (main (\<lambda>n. True) default_config [Receive (RxError False)]) = Exit 0"
  using main_exit_code [of "\<lambda>n. True" default_config "[Signal]" "[]"]
  by (simp add: main_setup_def default_config_def pwm_ensure_exported_def
        path_exists_def syscall_def initial_def pwm_set_base_def pwm_set_enable_def
        write_sysfs_def pwm_set_period_ns_def pwm_set_duty_ns_def can_setup_socket_def
        Let_def)

section \<open>Export timeout\<close>

text \<open>The polling loop only calls stat and usleep, and keeps the flags.\<close>

lemma wait_for_path_flags:
  "exported_by_us (wait_for_path env p waited s) = exported_by_us s \<and>
   pwm_enabled (wait_for_path env p waited s) = pwm_enabled s \<and>
   pwm_base_path (wait_for_path env p waited s) = pwm_base_path s \<and>
   set (trace (wait_for_path env p waited s)) \<subseteq> set (trace s) \<union> {Stat p, Usleep 10000}"
proof (induction env p waited s rule: wait_for_path.induct)
  case (1 env p waited s)
  show ?case
    using "1.IH" [of "env (clock s)" "snd (path_exists env p s)"]
    by (subst (1 2 3 4) wait_for_path.simps)
       (auto simp add: path_exists_def syscall_def effect_def)
qed

lemma wait_for_path_keeps_trace:
  "set (trace s) \<subseteq> set (trace (wait_for_path env p waited s))"
proof (induction env p waited s rule: wait_for_path.induct)
  case (1 env p waited s)
  show ?case
    using "1.IH" [of "env (clock s)" "snd (path_exists env p s)"]
    by (subst wait_for_path.simps)
       (auto simp add: path_exists_def syscall_def effect_def)
qed

lemma wait_for_path_timeout:
  "waited \<le> 50 \<Longrightarrow> (\<forall>k. clock s \<le> k \<and> k \<le> clock s + (50 - waited) \<longrightarrow> \<not> env k) \<Longrightarrow>
     clock (wait_for_path env p waited s) = clock s + (51 - waited)"
proof (induction env p waited s rule: wait_for_path.induct)
  case (1 env p waited s)
  have nex: "\<not> env (clock s)" using "1.prems" by simp
  show ?case
  proof (cases "waited < 50")
    case True
    let ?s' = "effect (Usleep 10000) (snd (path_exists env p s))"
    have c: "clock ?s' = clock s + 1" by (simp add: effect_def path_exists_def syscall_def)
    have "clock (wait_for_path env p (waited + 1) ?s') = clock ?s' + (51 - (waited + 1))"
    proof (rule "1.IH" [of "env (clock s)" "snd (path_exists env p s)"])
      show "(env (clock s), snd (path_exists env p s)) = path_exists env p s"
        by (simp add: path_exists_def syscall_def)
      show "\<not> env (clock s) \<and> waited < 50" using nex True by simp
      show "waited + 1 \<le> 50" using True by simp
      show "\<forall>k. clock ?s' \<le> k \<and> k \<le> clock ?s' + (50 - (waited + 1)) \<longrightarrow> \<not> env k"
        using "1.prems" True c by auto
    qed
    then show ?thesis
      using True nex c
      by (subst wait_for_path.simps) (simp add: path_exists_def syscall_def)
  next
    case False
    then show ?thesis
      using "1.prems"
      by (subst wait_for_path.simps) (simp add: path_exists_def syscall_def)
  qed
qed

lemma pwm_ensure_exported_timeout:
  assumes e0: "\<not> env (clock s)" and e1: "env (clock s + 1)"
    and never: "\<forall>k. clock s + 2 \<le> k \<and> k \<le> clock s + 53 \<longrightarrow> \<not> env k"
  shows "fst (pwm_ensure_exported env chip ch s) = - 1 \<and>
         exported_by_us (snd (pwm_ensure_exported env chip ch s)) \<and>
         Write (PwmExport chip) ch \<in> set (trace (snd (pwm_ensure_exported env chip ch s))) \<and>
         set (trace (snd (pwm_ensure_exported env chip ch s))) \<subseteq>
           set (trace s) \<union> {Stat (PwmDir chip ch), Usleep 10000, Write (PwmExport chip) ch}"
proof -
  let ?p = "PwmDir chip ch"
  let ?s1 = "snd (path_exists env ?p s)"
  let ?s2 = "snd (write_sysfs env (PwmExport chip) ch ?s1)"
  let ?s3 = "?s2\<lparr>exported_by_us := True\<rparr>"
  let ?s4 = "wait_for_path env ?p 0 ?s3"
  let ?s5 = "snd (path_exists env ?p ?s4)"
  have r1: "fst (path_exists env ?p s) = False"
    using e0 by (simp add: path_exists_def syscall_def)
  have c1: "clock ?s1 = clock s + 1" by (simp add: path_exists_def syscall_def)
  have r2: "fst (write_sysfs env (PwmExport chip) ch ?s1) = 0"
    using e1 c1 by (simp add: write_sysfs_result)
  have c3: "clock ?s3 = clock s + 2" using c1 by (simp add: write_sysfs_state)
  have t3: "trace ?s3 = trace s @ [Stat ?p, Write (PwmExport chip) ch]"
    by (simp add: write_sysfs_state path_exists_def syscall_def)
  have c4: "clock ?s4 = clock s + 53"
    using wait_for_path_timeout [of 0 ?s3 env ?p] never c3 by simp
  have f4: "exported_by_us ?s4"
    and t4: "set (trace ?s4) \<subseteq> set (trace ?s3) \<union> {Stat ?p, Usleep 10000}"
    using wait_for_path_flags [of env ?p 0 ?s3] by simp_all
  have r3: "fst (path_exists env ?p ?s4) = False"
    using never c4 by (simp add: path_exists_def syscall_def)
  have res: "pwm_ensure_exported env chip ch s = (- 1, ?s5)"
    unfolding pwm_ensure_exported_def case_prod_beta Let_def
    by (simp only: r1 r2 r3 if_False if_True simp_thms less_irrefl)
  have f5: "exported_by_us ?s5" using f4 by (simp add: path_exists_def syscall_def)
  have t5: "trace ?s5 = trace ?s4 @ [Stat ?p]" by (simp add: path_exists_def syscall_def)
  have sub: "set (trace ?s3) \<subseteq> set (trace ?s4)"
    by (rule wait_for_path_keeps_trace)
  show ?thesis
    unfolding res using f5 t5 t4 t3 sub by auto
qed

text \<open>
  Claim C4 fails on the code. When the channel directory is absent, the write to
  \<open>export\<close> succeeds and the directory does not appear within the polling window,
  \<open>main\<close> returns 1 straight after \<open>pwm_ensure_exported\<close>: the export is owned
  (\<open>exported_by_us\<close> is set) and no write to \<open>unexport\<close> is made.
\<close>

theorem export_timeout_skips_unexport:
  "sint (cfg_min_distance_mm cfg) < sint (cfg_threshold_mm cfg) \<Longrightarrow>
   \<not> env 0 \<Longrightarrow> env 1 \<Longrightarrow> (\<forall>k. 2 \<le> k \<and> k \<le> 53 \<longrightarrow> \<not> env k) \<Longrightarrow>
     fst (main env cfg events) = Exit 1 \<and>
     exported_by_us (snd (main env cfg events)) \<and>
     Write (PwmExport (cfg_pwm_chip cfg)) (cfg_pwm_channel cfg)
       \<in> set (trace (snd (main env cfg events))) \<and>
     Write (PwmUnexport (cfg_pwm_chip cfg)) (cfg_pwm_channel cfg)
       \<notin> set (trace (snd (main env cfg events)))"
proof -
  assume cfg: "sint (cfg_min_distance_mm cfg) < sint (cfg_threshold_mm cfg)"
    and e0: "\<not> env 0" and e1: "env 1" and never: "\<forall>k. 2 \<le> k \<and> k \<le> 53 \<longrightarrow> \<not> env k"
  let ?r = "pwm_ensure_exported env (cfg_pwm_chip cfg) (cfg_pwm_channel cfg) initial"
  have c0: "clock initial = 0" and t0: "trace initial = []" by (simp_all add: initial_def)
  have pe: "fst ?r = - 1 \<and> exported_by_us (snd ?r) \<and>
      Write (PwmExport (cfg_pwm_chip cfg)) (cfg_pwm_channel cfg) \<in> set (trace (snd ?r)) \<and>
      set (trace (snd ?r)) \<subseteq> set (trace initial) \<union>
        {Stat (PwmDir (cfg_pwm_chip cfg) (cfg_pwm_channel cfg)), Usleep 10000,
         Write (PwmExport (cfg_pwm_chip cfg)) (cfg_pwm_channel cfg)}"
    using e0 e1 never c0
    by (intro pwm_ensure_exported_timeout) simp_all
  have m: "main env cfg events = (Exit 1, snd ?r)"
    using cfg pe by (simp add: main_def main_setup_def case_prod_beta)
  show ?thesis
    unfolding m using pe t0 by auto
qed

theorem export_timeout_skips_unexport_witness:
  "fst (main (\<lambda>n. n = 1) default_config []) = Exit 1 \<and>
   exported_by_us (snd (main (\<lambda>n. n = 1) default_config [])) \<and>
   Write (PwmExport 0) 0 \<in> set (trace (snd (main (\<lambda>n. n = 1) default_config []))) \<and>
   Write (PwmUnexport 0) 0 \<notin> set (trace (snd (main (\<lambda>n. n = 1) default_config [])))"
  using export_timeout_skips_unexport [of default_config "\<lambda>n. n = 1" "[]"]
  by (simp add: default_config_def)

text \<open>The sibling path: when the CAN socket cannot be set up, both cleanup calls run.\<close>

lemma can_failure_runs_teardown:
  "trace (snd (main (\<lambda>n. n \<noteq> 0 \<and> n \<noteq> 8) default_config [])) =
     [Stat (PwmDir 0 0), Write (PwmExport 0) 0, Stat (PwmDir 0 0), Stat (PwmDir 0 0),
      Write (PwmAttr (Some (0, 0)) ''enable'') 0,
      Write (PwmAttr (Some (0, 0)) ''period'') 1000000,
      Write (PwmAttr (Some (0, 0)) ''duty_cycle'') 0,
      Write (PwmAttr (Some (0, 0)) ''enable'') 1, Socket,
      Write (PwmAttr (Some (0, 0)) ''enable'') 0, Write (PwmUnexport 0) 0]"
  by (simp add: main_def main_setup_def default_config_def pwm_ensure_exported_def
        path_exists_def syscall_def initial_def pwm_set_base_def pwm_set_enable_def
        write_sysfs_def pwm_set_period_ns_def pwm_set_duty_ns_def can_setup_socket_def
        teardown_def pwm_cleanup_disable_def pwm_cleanup_unexport_def
        wait_for_path.simps [of _ _ 0] Let_def)

section \<open>Double precision rounding\<close>

subsection \<open>Rounding to an integer, ties to even\<close>

lemma round_even_cases:
  "round_even q = \<lfloor>q\<rfloor> \<or> round_even q = \<lfloor>q\<rfloor> + 1"
  by (simp add: round_even_def Let_def)

lemma round_even_error: "\<bar>of_int (round_even q) - q\<bar> \<le> 1 / 2"
proof -
  have fl: "of_int \<lfloor>q\<rfloor> \<le> q" "q < of_int \<lfloor>q\<rfloor> + 1" by linarith+
  consider "q - of_int \<lfloor>q\<rfloor> < 1 / 2" | "1 / 2 < q - of_int \<lfloor>q\<rfloor>"
    | "q - of_int \<lfloor>q\<rfloor> = 1 / 2" by linarith
  then show ?thesis
  proof cases
    case 1
    then have "round_even q = \<lfloor>q\<rfloor>" by (simp add: round_even_def Let_def)
    then show ?thesis using 1 fl by simp
  next
    case 2
    then have "round_even q = \<lfloor>q\<rfloor> + 1" by (simp add: round_even_def Let_def)
    then show ?thesis using 2 fl by simp
  next
    case 3
    then have "round_even q = \<lfloor>q\<rfloor> \<or> round_even q = \<lfloor>q\<rfloor> + 1"
      by (simp add: round_even_def Let_def)
    then show ?thesis using 3 by auto
  qed
qed

lemma round_even_of_int [simp]: "round_even (of_int n) = n"
  by (simp add: round_even_def)

lemma round_even_le_int: "q \<le> of_int n \<Longrightarrow> round_even q \<le> n"
proof -
  assume a: "q \<le> of_int n"
  show ?thesis
  proof (cases "q = of_int n")
    case True
    then show ?thesis by simp
  next
    case False
    then have "q < of_int n" using a by simp
    then have "\<lfloor>q\<rfloor> < n" by (simp add: floor_less_iff)
    then show ?thesis using round_even_cases [of q] by auto
  qed
qed

lemma round_even_ge_int: "of_int n \<le> q \<Longrightarrow> n \<le> round_even q"
proof -
  assume "of_int n \<le> q"
  then have "n \<le> \<lfloor>q\<rfloor>" by (simp add: le_floor_iff)
  then show ?thesis using round_even_cases [of q] by auto
qed

lemma round_even_mono: "q \<le> q' \<Longrightarrow> round_even q \<le> round_even q'"
proof -
  assume le: "q \<le> q'"
  have fl: "\<lfloor>q\<rfloor> \<le> \<lfloor>q'\<rfloor>" using le by (rule floor_mono)
  show ?thesis
  proof (cases "\<lfloor>q\<rfloor> = \<lfloor>q'\<rfloor>")
    case True
    then have "q - of_int \<lfloor>q\<rfloor> \<le> q' - of_int \<lfloor>q'\<rfloor>" using le by simp
    then show ?thesis using True
      by (auto simp add: round_even_def Let_def)
  next
    case False
    then have "\<lfloor>q\<rfloor> + 1 \<le> \<lfloor>q'\<rfloor>" using fl by simp
    then show ?thesis using round_even_cases [of q] round_even_cases [of q'] by auto
  qed
qed

subsection \<open>The binary exponent\<close>

lemma two_powi_pos [simp]: "0 < (2 :: rat) powi k"
  by simp

lemma two_powi_Suc: "(2 :: rat) powi (k + 1) = 2 * 2 powi k"
  by (simp add: power_int_add)

lemma dbl_exp_bounds:
  assumes "0 < x"
  shows "2 powi (dbl_exp x) \<le> x \<and> x < 2 powi (dbl_exp x + 1)"
proof (cases "1 \<le> x")
  case True
  let ?n = "\<lfloor>x\<rfloor>"
  have n: "0 < ?n" using True by simp
  have b: "2 ^ nat (bitlen ?n - 1) \<le> ?n \<and> ?n < 2 ^ nat (bitlen ?n)"
    using bitlen_bounds [OF n] .
  have bl: "1 \<le> bitlen ?n" using n bitlen_eq_zero_iff [of ?n] bitlen_nonneg [of ?n] by linarith
  have e: "dbl_exp x = bitlen ?n - 1" using True by (simp add: dbl_exp_def)
  have lo: "(2 :: rat) powi (bitlen ?n - 1) = of_int (2 ^ nat (bitlen ?n - 1))"
    using bl by (simp add: power_int_def)
  have hi: "(2 :: rat) powi (bitlen ?n) = of_int (2 ^ nat (bitlen ?n))"
    using bl by (simp add: power_int_def)
  have "of_int (2 ^ nat (bitlen ?n - 1)) \<le> (of_int ?n :: rat)"
    using b by (simp only: of_int_le_iff)
  also have "\<dots> \<le> x" by simp
  finally have l: "2 powi (dbl_exp x) \<le> x" using lo e by simp
  have "?n + 1 \<le> 2 ^ nat (bitlen ?n)" using b by simp
  then have "(of_int (?n + 1) :: rat) \<le> of_int (2 ^ nat (bitlen ?n))"
    by (simp only: of_int_le_iff)
  moreover have "x < of_int (?n + 1)" by simp linarith
  ultimately have "x < 2 powi (bitlen ?n)" using hi by simp
  then show ?thesis using l e by simp
next
  case False
  let ?c = "\<lceil>1 / x\<rceil>"
  let ?k = "bitlen (?c - 1)"
  have y: "1 < 1 / x" using False assms by simp
  then have c: "0 < ?c - 1" by (simp add: less_ceiling_iff)
  have b: "2 ^ nat (?k - 1) \<le> ?c - 1 \<and> ?c - 1 < 2 ^ nat ?k"
    using bitlen_bounds [OF c] .
  have kl: "1 \<le> ?k" using c bitlen_eq_zero_iff [of "?c - 1"] bitlen_nonneg [of "?c - 1"] by linarith
  have e: "dbl_exp x = - ?k" using False by (simp add: dbl_exp_def)
  have c_hi: "1 / x \<le> of_int ?c" by simp
  have c_lo: "of_int (?c - 1) < 1 / x" by simp linarith
  have "?c \<le> 2 ^ nat ?k" using b by simp
  then have "(of_int ?c :: rat) \<le> of_int (2 ^ nat ?k)" by (simp only: of_int_le_iff)
  then have "(of_int ?c :: rat) \<le> 2 ^ nat ?k" by simp
  then have "1 / x \<le> 2 ^ nat ?k" by (rule order_trans [OF c_hi])
  then have "1 \<le> 2 ^ nat ?k * x" using assms by (simp add: field_simps)
  then have "1 / 2 ^ nat ?k \<le> x" by (simp add: field_simps)
  moreover have "(2 :: rat) powi (- ?k) = 1 / 2 ^ nat ?k"
    using kl by (simp add: power_int_def field_simps)
  ultimately have l: "2 powi (dbl_exp x) \<le> x" using e by simp
  have "(of_int (2 ^ nat (?k - 1)) :: rat) \<le> of_int (?c - 1)"
    using b by (simp only: of_int_le_iff)
  then have "(2 :: rat) ^ nat (?k - 1) \<le> of_int (?c - 1)" by simp
  then have "2 ^ nat (?k - 1) < 1 / x" by (rule le_less_trans [OF _ c_lo])
  then have "2 ^ nat (?k - 1) * x < 1" using assms by (simp add: field_simps)
  then have "x < 1 / 2 ^ nat (?k - 1)" by (simp add: field_simps)
  moreover have "(2 :: rat) powi (- ?k + 1) = 1 / 2 ^ nat (?k - 1)"
  proof -
    have "- ?k + 1 = - (?k - 1)" by simp
    then have "(2 :: rat) powi (- ?k + 1) = inverse (2 powi (?k - 1))"
      by (simp only: power_int_minus)
    also have "\<dots> = 1 / 2 ^ nat (?k - 1)" using kl by (simp add: power_int_def field_simps)
    finally show ?thesis .
  qed
  ultimately have "x < 2 powi (dbl_exp x + 1)" using e by simp
  then show ?thesis using l by simp
qed

subsection \<open>Rounding to a double\<close>

lemma dbl_ulp_pos [simp]: "0 < dbl_ulp x"
  by (simp add: dbl_ulp_def)

lemma dbl_ulp_nonneg [simp]: "0 \<le> dbl_ulp x"
  by (simp add: dbl_ulp_def)

lemma dbl_ulp_nz [simp]: "dbl_ulp x \<noteq> 0"
  by (simp add: dbl_ulp_def)

lemma dbl_round_pos_eq: "0 < x \<Longrightarrow> dbl_round x = of_int (round_even (x / dbl_ulp x)) * dbl_ulp x"
  by (simp add: dbl_round_def dbl_ulp_def Let_def)

lemma dbl_round_0 [simp]: "dbl_round 0 = 0"
  by (simp add: dbl_round_def)

lemma dbl_round_minus: "dbl_round (- x) = - dbl_round x"
  by (simp add: dbl_round_def Let_def sgn_minus)

lemma powi_split: "(2 :: rat) powi e = 2 ^ 52 * 2 powi (e - 52)"
proof -
  have "(2 :: rat) powi (52 + (e - 52)) = 2 powi 52 * 2 powi (e - 52)"
    by (rule power_int_add) simp
  then show ?thesis by simp
qed

lemma powi_split': "(2 :: rat) powi (e + 1) = 2 ^ 53 * 2 powi (e - 52)"
proof -
  have "(2 :: rat) powi (53 + (e - 52)) = 2 powi 53 * 2 powi (e - 52)"
    by (rule power_int_add) simp
  moreover have "53 + (e - 52) = e + 1" by simp
  ultimately show ?thesis by simp
qed

lemma scaled_bounds:
  assumes "0 < x"
  shows "2 ^ 52 \<le> x / dbl_ulp x" and "x / dbl_ulp x < 2 ^ 53"
proof -
  have b: "2 powi (dbl_exp x) \<le> x" "x < 2 powi (dbl_exp x + 1)"
    using dbl_exp_bounds [OF assms] by simp_all
  have "2 ^ 52 * dbl_ulp x \<le> x"
    using b(1) powi_split [of "dbl_exp x"] by (simp add: dbl_ulp_def)
  then show "2 ^ 52 \<le> x / dbl_ulp x"
    by (simp add: pos_le_divide_eq)
  have "x < 2 ^ 53 * dbl_ulp x"
    using b(2) powi_split' [of "dbl_exp x"] by (simp add: dbl_ulp_def)
  then show "x / dbl_ulp x < 2 ^ 53"
    by (simp add: pos_divide_less_eq)
qed

lemma dbl_round_pos_bounds:
  assumes "0 < x"
  shows "2 powi (dbl_exp x) \<le> dbl_round x" and "dbl_round x \<le> 2 powi (dbl_exp x + 1)"
proof -
  have "(of_int (2 ^ 52) :: rat) \<le> x / dbl_ulp x" using scaled_bounds(1) [OF assms] by simp
  then have "2 ^ 52 \<le> round_even (x / dbl_ulp x)" by (rule round_even_ge_int)
  then have "(of_int (2 ^ 52) :: rat) \<le> of_int (round_even (x / dbl_ulp x))"
    by (simp only: of_int_le_iff)
  then have "2 ^ 52 * dbl_ulp x \<le> of_int (round_even (x / dbl_ulp x)) * dbl_ulp x"
    by (intro mult_right_mono) simp_all
  then show "2 powi (dbl_exp x) \<le> dbl_round x"
    using assms powi_split [of "dbl_exp x"] by (simp add: dbl_round_pos_eq dbl_ulp_def)
  have "x / dbl_ulp x \<le> of_int (2 ^ 53)" using scaled_bounds(2) [OF assms] by simp
  then have "round_even (x / dbl_ulp x) \<le> 2 ^ 53" by (rule round_even_le_int)
  then have "(of_int (round_even (x / dbl_ulp x)) :: rat) \<le> of_int (2 ^ 53)"
    by (simp only: of_int_le_iff)
  then have "of_int (round_even (x / dbl_ulp x)) * dbl_ulp x \<le> 2 ^ 53 * dbl_ulp x"
    by (intro mult_right_mono) simp_all
  then show "dbl_round x \<le> 2 powi (dbl_exp x + 1)"
    using assms powi_split' [of "dbl_exp x"] by (simp add: dbl_round_pos_eq dbl_ulp_def)
qed

lemma dbl_round_pos: "0 < x \<Longrightarrow> 0 < dbl_round x"
  using dbl_round_pos_bounds(1) [of x] two_powi_pos [of "dbl_exp x"] by linarith

lemma dbl_round_error_ulp:
  assumes "0 < x"
  shows "\<bar>dbl_round x - x\<bar> \<le> dbl_ulp x / 2"
proof -
  let ?u = "dbl_ulp x"
  have "dbl_round x - x = (of_int (round_even (x / ?u)) - x / ?u) * ?u"
    using assms by (simp add: dbl_round_pos_eq field_simps)
  then have "\<bar>dbl_round x - x\<bar> = \<bar>of_int (round_even (x / ?u)) - x / ?u\<bar> * ?u"
    by (simp add: abs_mult)
  also have "\<dots> \<le> (1 / 2) * ?u"
    by (rule mult_right_mono [OF round_even_error]) simp
  finally show ?thesis by simp
qed

lemma dbl_round_error:
  assumes "0 < x"
  shows "\<bar>dbl_round x - x\<bar> \<le> x / 2 ^ 53"
proof -
  have "2 ^ 52 * dbl_ulp x \<le> x"
    using scaled_bounds(1) [OF assms] by (simp add: pos_le_divide_eq)
  then have "dbl_ulp x / 2 \<le> x / 2 ^ 53" by simp
  then show ?thesis using dbl_round_error_ulp [OF assms] by linarith
qed

lemma dbl_exp_mono:
  assumes "0 < x" "x \<le> y"
  shows "dbl_exp x \<le> dbl_exp y"
proof (rule ccontr)
  assume "\<not> dbl_exp x \<le> dbl_exp y"
  then have "dbl_exp y + 1 \<le> dbl_exp x" by simp
  then have "(2 :: rat) powi (dbl_exp y + 1) \<le> 2 powi (dbl_exp x)"
    by (rule power_int_increasing) simp
  moreover have "y < 2 powi (dbl_exp y + 1)" using dbl_exp_bounds [of y] assms by simp
  moreover have "2 powi (dbl_exp x) \<le> x" using dbl_exp_bounds [of x] assms by simp
  ultimately show False using assms by linarith
qed

lemma dbl_round_mono_pos:
  assumes "0 < x" "x \<le> y"
  shows "dbl_round x \<le> dbl_round y"
proof (cases "dbl_exp x = dbl_exp y")
  case True
  then have u: "dbl_ulp x = dbl_ulp y" by (simp add: dbl_ulp_def)
  have "x / dbl_ulp y \<le> y / dbl_ulp y" using assms by (intro divide_right_mono) simp_all
  then have "round_even (x / dbl_ulp y) \<le> round_even (y / dbl_ulp y)" by (rule round_even_mono)
  then have "(of_int (round_even (x / dbl_ulp y)) :: rat) \<le> of_int (round_even (y / dbl_ulp y))"
    by (simp only: of_int_le_iff)
  then have "of_int (round_even (x / dbl_ulp y)) * dbl_ulp y \<le>
      of_int (round_even (y / dbl_ulp y)) * dbl_ulp y"
    by (intro mult_right_mono) simp_all
  then show ?thesis
    using assms u by (simp add: dbl_round_pos_eq)
next
  case False
  then have "dbl_exp x + 1 \<le> dbl_exp y" using dbl_exp_mono [OF assms] by simp
  then have "(2 :: rat) powi (dbl_exp x + 1) \<le> 2 powi (dbl_exp y)"
    by (rule power_int_increasing) simp
  moreover have "dbl_round x \<le> 2 powi (dbl_exp x + 1)"
    using dbl_round_pos_bounds(2) assms by simp
  moreover have "2 powi (dbl_exp y) \<le> dbl_round y"
    using dbl_round_pos_bounds(1) [of y] assms by simp
  ultimately show ?thesis by linarith
qed

lemma dbl_round_mono: "x \<le> y \<Longrightarrow> dbl_round x \<le> dbl_round y"
proof -
  assume le: "x \<le> y"
  consider "0 < x" | "x = 0" | "x < 0" "0 < y" | "x < 0" "y = 0" | "x < 0" "y < 0" by linarith
  then show ?thesis
  proof cases
    case 1
    then show ?thesis using le by (rule dbl_round_mono_pos)
  next
    case 2
    then show ?thesis using le dbl_round_pos [of y] by (cases "y = 0") auto
  next
    case 3
    have "dbl_round (- x) > 0" using 3 by (intro dbl_round_pos) simp
    then show ?thesis using dbl_round_pos [of y] 3 by (simp add: dbl_round_minus)
  next
    case 4
    have "dbl_round (- x) > 0" using 4 by (intro dbl_round_pos) simp
    then show ?thesis using 4 by (simp add: dbl_round_minus)
  next
    case 5
    have "dbl_round (- y) \<le> dbl_round (- x)" using 5 le by (intro dbl_round_mono_pos) simp_all
    then show ?thesis by (simp add: dbl_round_minus)
  qed
qed

section \<open>The braking decision\<close>

lemma clamp01_range: "0 \<le> clamp01 f \<and> clamp01 f \<le> 1"
  by (simp add: clamp01_def Let_def)

lemma clamp01_mono: "f \<le> g \<Longrightarrow> clamp01 f \<le> clamp01 g"
  by (simp add: clamp01_def Let_def)

lemma clamp01_nonpos: "f \<le> 0 \<Longrightarrow> clamp01 f = 0"
  by (simp add: clamp01_def Let_def)

lemma clamp01_id: "0 \<le> f \<Longrightarrow> f \<le> 1 \<Longrightarrow> clamp01 f = f"
  by (simp add: clamp01_def Let_def)

lemma dbl_round_consts:
  "dbl_round 1 = 1" "dbl_round 100 = 100" "dbl_round (1 / 2) = 1 / 2"
  "dbl_round (201 / 2) = 201 / 2"
  by code_simp+

lemma scaled_range:
  "0 \<le> dbl_add (dbl_mul (clamp01 f) 100) (1 / 2) - 1 / 2 \<and>
   dbl_add (dbl_mul (clamp01 f) 100) (1 / 2) \<le> 201 / 2"
proof -
  have c: "0 \<le> clamp01 f" "clamp01 f \<le> 1" using clamp01_range [of f] by simp_all
  have "dbl_round 0 \<le> dbl_round (clamp01 f * 100)" using c by (intro dbl_round_mono) simp
  then have p0: "0 \<le> dbl_mul (clamp01 f) 100" by (simp add: dbl_mul_def)
  have "dbl_round (clamp01 f * 100) \<le> dbl_round 100" using c by (intro dbl_round_mono) simp
  then have p1: "dbl_mul (clamp01 f) 100 \<le> 100" by (simp add: dbl_mul_def dbl_round_consts)
  have "dbl_round (1 / 2) \<le> dbl_round (dbl_mul (clamp01 f) 100 + 1 / 2)"
    using p0 by (intro dbl_round_mono) simp
  then have u0: "1 / 2 \<le> dbl_add (dbl_mul (clamp01 f) 100) (1 / 2)"
    by (simp add: dbl_add_def dbl_round_consts)
  have "dbl_round (dbl_mul (clamp01 f) 100 + 1 / 2) \<le> dbl_round (201 / 2)"
    using p1 by (intro dbl_round_mono) simp
  then have u1: "dbl_add (dbl_mul (clamp01 f) 100) (1 / 2) \<le> 201 / 2"
    by (simp add: dbl_add_def dbl_round_consts)
  show ?thesis using u0 u1 by simp
qed

lemma percent_of_frac_range: "0 \<le> percent_of_frac f \<and> percent_of_frac f \<le> 100"
proof -
  let ?u = "dbl_add (dbl_mul (clamp01 f) 100) (1 / 2)"
  have u: "1 / 2 \<le> ?u" "?u \<le> 201 / 2" using scaled_range [of f] by simp_all
  have "0 \<le> \<lfloor>?u\<rfloor>" using u(1) by simp
  moreover have "\<lfloor>?u\<rfloor> \<le> 100"
  proof -
    have "?u < of_int 101" using u(2) by simp
    then have "\<lfloor>?u\<rfloor> < 101" by (simp only: floor_less_iff)
    then show ?thesis by simp
  qed
  ultimately show ?thesis by (simp add: percent_of_frac_def)
qed

lemma percent_of_frac_mono: "f \<le> g \<Longrightarrow> percent_of_frac f \<le> percent_of_frac g"
  unfolding percent_of_frac_def dbl_add_def dbl_mul_def
  by (intro floor_mono dbl_round_mono add_right_mono mult_right_mono clamp01_mono) simp_all

lemma percent_of_frac_nonpos: "f \<le> 0 \<Longrightarrow> percent_of_frac f = 0"
proof -
  assume "f \<le> 0"
  then have "clamp01 f = 0" by (rule clamp01_nonpos)
  moreover have "\<lfloor>1 / 2 :: rat\<rfloor> = 0" by (rule floor_unique) simp_all
  ultimately show ?thesis
    by (simp add: percent_of_frac_def dbl_mul_def dbl_add_def dbl_round_consts)
qed

lemma dbl_to_uint8_frac:
  "dbl_to_uint8 (dbl_add (dbl_mul (clamp01 f) 100) (1 / 2)) = word_of_int (percent_of_frac f)"
proof -
  have "0 \<le> dbl_add (dbl_mul (clamp01 f) 100) (1 / 2)" using scaled_range [of f] by simp
  then show ?thesis by (simp add: dbl_to_uint8_def percent_of_frac_def)
qed

lemma uint_percent_word: "uint (word_of_int (percent_of_frac f) :: 8 word) = percent_of_frac f"
  using percent_of_frac_range [of f] by (simp add: uint_word_of_int)

text \<open>The decision in terms of the integer percentage.\<close>

lemma decide_eq:
  "decide d st t m =
     (if st \<noteq> 0 then \<lparr>bc_state = 0, bc_percent = 0\<rparr>
      else if d < (ucast t :: 16 word) then
        (if d \<le> (ucast m :: 16 word) then \<lparr>bc_state = 1, bc_percent = 100\<rparr>
         else
           let p = percent_of_frac (dbl_div (dbl_of_int (t - ucast d)) (dbl_of_int (t - m)))
           in \<lparr>bc_state = (if 0 < p then 1 else 0), bc_percent = word_of_int p\<rparr>)
      else \<lparr>bc_state = 0, bc_percent = 0\<rparr>)"
proof -
  have w: "(0 < (word_of_int (percent_of_frac f) :: 8 word)) = (0 < percent_of_frac f)" for f
    using uint_percent_word [of f] by (simp add: word_less_def)
  show ?thesis
    unfolding decide_def Let_def
    using dbl_to_uint8_frac [unfolded clamp01_def Let_def] w
    by (simp add: Let_def)
qed

lemma decide_percent_le_100: "uint (bc_percent (decide d st t m)) \<le> 100"
  using percent_of_frac_range by (simp add: decide_eq Let_def uint_percent_word)

text \<open>
  Claim C8. For every distance, every status byte and every configuration with
  \<open>threshold_mm > min_distance_mm\<close>, the computed percentage lies between 0 and 100,
  and the command is inactive with percentage 0 whenever the status is not 0.
\<close>

theorem percent_invariant:
  "sint m < sint t \<Longrightarrow>
     uint (bc_percent (decide d st t m)) \<le> 100 \<and>
     (st \<noteq> 0 \<longrightarrow> decide d st t m = \<lparr>bc_state = 0, bc_percent = 0\<rparr>)"
  using decide_percent_le_100 [of d st t m] by (simp add: decide_eq)

theorem percent_invariant_witness:
  "sint (50 :: 32 word) < sint (300 :: 32 word) \<and>
   uint (bc_percent (decide 175 0 300 50)) \<le> 100 \<and>
   decide 10 2 300 50 = \<lparr>bc_state = 0, bc_percent = 0\<rparr>"
  using percent_invariant [of 50 300 175 0] percent_invariant [of 50 300 10 2]
  by simp

subsection \<open>The integer subtractions of the interpolation\<close>

lemma sint_ucast_16: "sint (ucast (d :: 16 word) :: 32 word) = uint d"
proof -
  have "uint d < 65536" using uint_lt2p [of d] by simp
  moreover have "0 \<le> uint d" by simp
  ultimately have "- 2147483648 \<le> uint d" "uint d < 2147483648" by linarith+
  then have "signed_take_bit 31 (uint d) = uint d"
    by (intro signed_take_bit_int_eq_self) simp_all
  then show ?thesis
    by (simp add: signed_ucast_eq)
qed

lemma uint_ucast_32_16: "uint (ucast (t :: 32 word) :: 16 word) = sint t mod 65536"
proof -
  have "uint (ucast t :: 16 word) = uint t mod 2 ^ 16"
    by (simp add: unsigned_ucast_eq take_bit_eq_mod)
  also have "uint t = sint t mod 2 ^ 32"
    by (simp add: uint_sint take_bit_eq_mod)
  also have "(sint t mod 2 ^ 32) mod 2 ^ 16 = sint t mod 2 ^ 16"
    by (rule mod_mod_cancel) simp
  finally show ?thesis by simp
qed

lemma sint_bounds_32: "- 2147483648 \<le> sint (t :: 32 word) \<and> sint t < 2147483648"
  using sint_ge [of t] sint_lt [of t] by simp

text \<open>Below the truncated threshold the subtraction at line 369 does not wrap.\<close>

lemma threshold_minus_dist:
  assumes "d < (ucast (t :: 32 word) :: 16 word)"
  shows "sint (t - ucast d) = sint t - uint d"
proof -
  have lt: "uint d < sint t mod 65536"
    using assms by (simp add: word_less_def uint_ucast_32_16)
  have b: "- 2147483648 \<le> sint t" "sint t < 2147483648" using sint_bounds_32 [of t] by simp_all
  have d0: "0 \<le> uint d" by simp
  have "(- 2147483648) div 65536 \<le> sint t div 65536" using b(1) by (intro zdiv_mono1) simp_all
  then have q: "- 32768 \<le> sint t div 65536" by simp
  have "sint t = 65536 * (sint t div 65536) + sint t mod 65536" by simp
  then have "- 2147483648 \<le> sint t - uint d" using lt q by linarith
  moreover have "sint t - uint d < 2147483648" using b d0 by linarith
  ultimately have "signed_take_bit 31 (sint t - uint d) = sint t - uint d"
    by (intro signed_take_bit_int_eq_self) simp_all
  then show ?thesis
    by (simp add: sint_word_ariths sint_ucast_16)
qed

lemma wrapped_span:
  assumes "sint m < sint (t :: 32 word)" "sint (t - m) \<le> 0"
  shows "2147483648 \<le> sint t - sint m"
proof (rule ccontr)
  assume "\<not> 2147483648 \<le> sint t - sint m"
  then have "- (2 ^ 31) \<le> sint t - sint m \<and> sint t - sint m < 2 ^ 31" using assms by simp
  then have "signed_take_bit 31 (sint t - sint m) = sint t - sint m"
    by (intro signed_take_bit_int_eq_self) simp_all
  then have "sint (t - m) = sint t - sint m" by (simp add: sint_word_ariths)
  then show False using assms by simp
qed

lemma span_nonzero: "sint m < sint (t :: 32 word) \<Longrightarrow> sint (t - m) \<noteq> 0"
proof
  assume a: "sint m < sint t" and "sint (t - m) = 0"
  then have "t - m = 0" by (simp only: signed_eq_0_iff)
  then have "t = m" by simp
  then show False using a by simp
qed

text \<open>
  With \<open>threshold_mm > min_distance_mm\<close>, which line 269 checks, the divisor at line
  369 is not zero, and the quotient is 0 or has a magnitude between \<open>1 / 2 ^ 31\<close> and
  \<open>2 ^ 31\<close>: a normal double. After the clamps the product lies between 0 and 100
  and the sum between 0.5 and 100.5 (\<open>scaled_range\<close>), so the cast to \<open>uint8_t\<close>
  is defined.
\<close>

lemma quotient_magnitude:
  assumes "sint b \<noteq> 0"
  shows "dbl_of_int a / dbl_of_int b = 0 \<or>
         (1 / 2 ^ 31 \<le> \<bar>dbl_of_int a / dbl_of_int b\<bar> \<and> \<bar>dbl_of_int a / dbl_of_int b\<bar> \<le> 2 ^ 31)"
proof (cases "sint a = 0")
  case True
  then show ?thesis by (simp only: dbl_of_int_def) simp
next
  case False
  let ?A = "of_int \<bar>sint a\<bar> :: rat" and ?B = "of_int \<bar>sint b\<bar> :: rat"
  have A: "1 \<le> \<bar>sint a\<bar>" "\<bar>sint a\<bar> \<le> 2147483648"
    using False sint_bounds_32 [of a] by linarith+
  have B: "1 \<le> \<bar>sint b\<bar>" "\<bar>sint b\<bar> \<le> 2147483648"
    using assms sint_bounds_32 [of b] by linarith+
  have A': "1 \<le> ?A" "?A \<le> 2147483648" using A by (simp_all only: of_int_1_le_iff of_int_le_numeral_iff) 
  have B': "1 \<le> ?B" "?B \<le> 2147483648" using B by (simp_all only: of_int_1_le_iff of_int_le_numeral_iff)
  have q: "\<bar>dbl_of_int a / dbl_of_int b\<bar> = ?A / ?B"
    by (simp only: dbl_of_int_def abs_divide of_int_abs)
  have "?A / ?B \<le> ?A / 1" using A' B' by (intro divide_left_mono) simp_all
  then have hi: "?A / ?B \<le> 2147483648" using A' by simp
  have "1 / 2147483648 \<le> 1 / ?B" using B' by (intro divide_left_mono) simp_all
  also have "1 / ?B \<le> ?A / ?B" using A' B' by (intro divide_right_mono) simp_all
  finally have lo: "1 / 2147483648 \<le> ?A / ?B" .
  show ?thesis unfolding q using lo hi by simp
qed

text \<open>
  Claim C9. For status 0 and a fixed configuration with
  \<open>threshold_mm > min_distance_mm\<close>, the percentage does not increase when the
  distance increases.
\<close>

theorem percent_monotone:
  assumes cfg: "sint m < sint t" and le: "d1 \<le> d2"
  shows "uint (bc_percent (decide d2 0 t m)) \<le> uint (bc_percent (decide d1 0 t m))"
proof (cases "d2 < (ucast t :: 16 word)")
  case False
  then show ?thesis by (simp add: decide_eq)
next
  case d2: True
  then have d1: "d1 < (ucast t :: 16 word)" using le by simp
  show ?thesis
  proof (cases "d1 \<le> (ucast m :: 16 word)")
    case True
    then show ?thesis
      using d1 decide_percent_le_100 [of d2 0 t m] by (simp add: decide_eq)
  next
    case False
    then have n2: "\<not> d2 \<le> (ucast m :: 16 word)" using le by simp
    let ?b = "dbl_of_int (t - m)"
    let ?a1 = "dbl_of_int (t - ucast d1)" and ?a2 = "dbl_of_int (t - ucast d2)"
    have a1: "?a1 = of_int (sint t - uint d1)"
      using threshold_minus_dist [OF d1] by (simp add: dbl_of_int_def)
    have a2: "?a2 = of_int (sint t - uint d2)"
      using threshold_minus_dist [OF d2] by (simp add: dbl_of_int_def)
    have dle: "uint d1 \<le> uint d2" using le by (simp add: word_le_def)
    have "sint t - uint d2 \<le> sint t - uint d1" using dle by simp
    then have a21: "?a2 \<le> ?a1" unfolding a1 a2 by (simp only: of_int_le_iff)
    have "percent_of_frac (dbl_div ?a2 ?b) \<le> percent_of_frac (dbl_div ?a1 ?b)"
    proof (cases "0 < sint (t - m)")
      case True
      then have "0 < ?b" by (simp only: dbl_of_int_def of_int_0_less_iff)
      then have "?a2 / ?b \<le> ?a1 / ?b" using a21 by (simp add: divide_right_mono)
      then show ?thesis
        unfolding dbl_div_def by (intro percent_of_frac_mono dbl_round_mono)
    next
      case False
      then have neg: "sint (t - m) \<le> 0" by simp
      have span: "2147483648 \<le> sint t - sint m" using wrapped_span [OF cfg neg] .
      have tpos: "0 \<le> sint t" using span sint_bounds_32 [of m] by linarith
      have "uint d1 < sint t mod 65536"
        using d1 by (simp add: word_less_def uint_ucast_32_16)
      moreover have "sint t mod 65536 \<le> sint t" using tpos by (simp add: zmod_le_nonneg_dividend)
      ultimately have "0 \<le> sint t - uint d1" by linarith
      then have "0 \<le> ?a1" by (simp only: a1 of_int_0_le_iff)
      moreover have "?b \<le> 0" using neg by (simp only: dbl_of_int_def of_int_le_0_iff)
      ultimately have "?a1 / ?b \<le> 0" by (simp add: divide_nonneg_nonpos)
      then have "dbl_round (?a1 / ?b) \<le> dbl_round 0" by (rule dbl_round_mono)
      then have f1: "dbl_div ?a1 ?b \<le> 0" by (simp add: dbl_div_def)
      have "uint d2 < sint t mod 65536"
        using d2 by (simp add: word_less_def uint_ucast_32_16)
      moreover have "sint t mod 65536 \<le> sint t" using tpos by (simp add: zmod_le_nonneg_dividend)
      ultimately have "0 \<le> sint t - uint d2" by linarith
      then have "0 \<le> ?a2" by (simp only: a2 of_int_0_le_iff)
      moreover have "?b \<le> 0" using neg by (simp only: dbl_of_int_def of_int_le_0_iff)
      ultimately have "?a2 / ?b \<le> 0" by (simp add: divide_nonneg_nonpos)
      then have "dbl_round (?a2 / ?b) \<le> dbl_round 0" by (rule dbl_round_mono)
      then have f2: "dbl_div ?a2 ?b \<le> 0" by (simp add: dbl_div_def)
      show ?thesis
        using percent_of_frac_nonpos [OF f1] percent_of_frac_nonpos [OF f2] by simp
    qed
    then show ?thesis
      using d1 d2 False n2 by (simp add: decide_eq Let_def uint_percent_word)
  qed
qed

theorem percent_monotone_witness:
  "sint (50 :: 32 word) < sint (300 :: 32 word) \<and> (100 :: 16 word) \<le> 200 \<and>
   uint (bc_percent (decide 200 0 300 50)) \<le> uint (bc_percent (decide 100 0 300 50))"
  using percent_monotone [of 50 300 100 200]
  by simp

lemma abs_le_D: "\<bar>x - y\<bar> \<le> e \<Longrightarrow> y - e \<le> x \<and> x \<le> y + (e :: rat)"
  by linarith

text \<open>Away from the integers, a multiple of 1 / (2 b) keeps a distance of 1 / (2 b).\<close>

lemma half_step_gap:
  fixes n b :: int
  assumes b: "0 < b" "b \<le> 65535"
    and X: "X = of_int n / (2 * of_int b)" and nonint: "of_int \<lfloor>X\<rfloor> \<noteq> (X :: rat)"
  shows "of_int \<lfloor>X\<rfloor> + 1 / 131070 \<le> X \<and> X + 1 / 131070 \<le> of_int \<lfloor>X\<rfloor> + 1"
proof -
  let ?K = "\<lfloor>X\<rfloor>"
  have bpos: "0 < (2 * of_int b :: rat)" using b by simp
  have nX: "of_int n = X * (2 * of_int b)" using X bpos by simp
  have "of_int ?K < X" using nonint of_int_floor_le [of X] by linarith
  then have "of_int ?K * (2 * of_int b) < X * (2 * of_int b)"
    using bpos by (simp only: mult_less_cancel_right_pos)
  then have "(of_int (?K * (2 * b)) :: rat) < of_int n" using nX by simp
  then have "?K * (2 * b) < n" by (simp only: of_int_less_iff)
  then have "?K * (2 * b) + 1 \<le> n" by simp
  then have "(of_int (?K * (2 * b) + 1) :: rat) \<le> of_int n" by (simp only: of_int_le_iff)
  then have lo: "1 \<le> (X - of_int ?K) * (2 * of_int b)" using nX by (simp add: algebra_simps)
  have "X < of_int (?K + 1)" by simp linarith
  then have "X * (2 * of_int b) < of_int (?K + 1) * (2 * of_int b)"
    using bpos by (simp only: mult_less_cancel_right_pos)
  then have "(of_int n :: rat) < of_int ((?K + 1) * (2 * b))" using nX by simp
  then have "n < (?K + 1) * (2 * b)" by (simp only: of_int_less_iff)
  then have "n + 1 \<le> (?K + 1) * (2 * b)" by simp
  then have "(of_int (n + 1) :: rat) \<le> of_int ((?K + 1) * (2 * b))" by (simp only: of_int_le_iff)
  then have hi: "1 \<le> (of_int ?K + 1 - X) * (2 * of_int b)" using nX by (simp add: algebra_simps)
  have b2: "(2 * of_int b :: rat) \<le> 131070" using b by simp
  have d1: "0 \<le> X - of_int ?K" by simp
  have "(X - of_int ?K) * (2 * of_int b) \<le> (X - of_int ?K) * 131070"
    using d1 b2 by (rule mult_left_mono [rotated])
  then have g1: "1 \<le> (X - of_int ?K) * 131070" using lo by linarith
  have d2: "0 \<le> of_int ?K + 1 - X" by simp linarith
  have "(of_int ?K + 1 - X) * (2 * of_int b) \<le> (of_int ?K + 1 - X) * 131070"
    using d2 b2 by (rule mult_left_mono [rotated])
  then have g2: "1 \<le> (of_int ?K + 1 - X) * 131070" using hi by linarith
  show ?thesis using g1 g2 by simp
qed

lemma percent_of_frac_exact:
  fixes a b :: int
  assumes a: "0 < a" "a < b" and b: "b \<le> 65535"
    and nonint: "of_int \<lfloor>100 * of_int a / of_int b + 1 / 2 :: rat\<rfloor> \<noteq>
                 (100 * of_int a / of_int b + 1 / 2 :: rat)"
  shows "percent_of_frac (dbl_div (of_int a) (of_int b)) = \<lfloor>100 * of_int a / of_int b + 1 / 2 :: rat\<rfloor>"
proof -
  let ?q = "of_int a / of_int b :: rat"
  let ?X = "100 * of_int a / of_int b + 1 / 2 :: rat"
  let ?f = "dbl_round ?q"
  let ?p = "dbl_round (?f * 100)"
  let ?u = "dbl_round (?p + 1 / 2)"
  define e :: rat where "e = 1 / 2 ^ 53"
  have bpos: "0 < (of_int b :: rat)" using a by simp
  have q0: "0 < ?q" using a by simp
  have q1: "?q \<le> 1" using a bpos by (simp add: pos_divide_le_eq)
  have f0: "0 < ?f" using q0 by (rule dbl_round_pos)
  have f1: "?f \<le> 1" using dbl_round_mono [OF q1] by (simp add: dbl_round_consts)
  have ef: "\<bar>?f - ?q\<bar> \<le> ?q / 2 ^ 53" using q0 by (rule dbl_round_error)
  have "?q / 2 ^ 53 \<le> e" using q1 by (simp add: e_def divide_right_mono)
  then have Ef: "?q - e \<le> ?f \<and> ?f \<le> ?q + e" using abs_le_D [OF ef] by linarith
  have fp: "0 < ?f * 100" using f0 by simp
  have p0: "0 < ?p" using fp by (rule dbl_round_pos)
  have "?f * 100 \<le> 100" using f1 by simp
  then have p1: "?p \<le> 100" using dbl_round_mono [of "?f * 100" 100] by (simp add: dbl_round_consts)
  have ep: "\<bar>?p - ?f * 100\<bar> \<le> ?f * 100 / 2 ^ 53" using fp by (rule dbl_round_error)
  have "?f * 100 / 2 ^ 53 \<le> 100 * e" using f1 by (simp add: e_def)
  then have Ep: "?f * 100 - 100 * e \<le> ?p \<and> ?p \<le> ?f * 100 + 100 * e"
    using abs_le_D [OF ep] by linarith
  have up: "0 < ?p + 1 / 2" using p0 by simp
  have eu: "\<bar>?u - (?p + 1 / 2)\<bar> \<le> (?p + 1 / 2) / 2 ^ 53" using up by (rule dbl_round_error)
  have "(?p + 1 / 2) / 2 ^ 53 \<le> 101 * e" using p1 by (simp add: e_def)
  then have Eu: "?p + 1 / 2 - 101 * e \<le> ?u \<and> ?u \<le> ?p + 1 / 2 + 101 * e"
    using abs_le_D [OF eu] by linarith
  have Xq: "?X = 100 * ?q + 1 / 2" by simp
  have err: "?X - 301 * e \<le> ?u \<and> ?u \<le> ?X + 301 * e"
    using Ef Ep Eu unfolding Xq by linarith
  have Xn: "?X = of_int (200 * a + b) / (2 * of_int b)"
    using bpos by (simp add: field_simps)
  have gap: "of_int \<lfloor>?X\<rfloor> + 1 / 131070 \<le> ?X \<and> ?X + 1 / 131070 \<le> of_int \<lfloor>?X\<rfloor> + 1"
    using a b by (intro half_step_gap [OF _ _ Xn nonint]) simp_all
  have small: "301 * e < 1 / 131070" by (simp add: e_def)
  have "of_int \<lfloor>?X\<rfloor> \<le> ?u" "?u < of_int \<lfloor>?X\<rfloor> + 1"
    using err gap small by linarith+
  then have fl: "\<lfloor>?u\<rfloor> = \<lfloor>?X\<rfloor>" by (rule floor_unique)
  have cl: "clamp01 (dbl_div (of_int a) (of_int b)) = ?f"
    using f0 f1 by (simp add: dbl_div_def clamp01_id)
  show ?thesis
    unfolding percent_of_frac_def cl dbl_add_def dbl_mul_def using fl by simp
qed

lemma uint_ucast_in_range:
  "0 \<le> sint (t :: 32 word) \<Longrightarrow> sint t \<le> 65535 \<Longrightarrow> uint (ucast t :: 16 word) = sint t"
  by (simp add: uint_ucast_32_16)

lemma span_in_range:
  assumes "0 \<le> sint (m :: 32 word)" "sint m < sint (t :: 32 word)" "sint t \<le> 65535"
  shows "sint (t - m) = sint t - sint m"
proof -
  have "- (2 ^ 31) \<le> sint t - sint m \<and> sint t - sint m < 2 ^ 31" using assms by simp
  then have "signed_take_bit 31 (sint t - sint m) = sint t - sint m"
    by (intro signed_take_bit_int_eq_self) simp_all
  then show ?thesis by (simp add: sint_word_ariths)
qed

text \<open>
  Claim C1, as stated, fails in two ways. With threshold 90 and minimum 50, the distance
  67 gives the fraction 23 / 40, whose double is just below 0.575; the product with 100 is
  just below 57.5 and the code yields 57, where rounding 57.5 half up gives 58. With
  threshold 70000 and minimum 50, the cast to \<open>uint16_t\<close> turns the threshold into
  4464, so the distance 5000 gives no braking, where the formula of the claim gives 93.
\<close>

theorem decide_counterexample:
  "decide 67 0 90 50 = \<lparr>bc_state = 1, bc_percent = 57\<rparr> \<and>
   \<lfloor>100 * (90 - 67) / (90 - 50) + 1 / 2 :: rat\<rfloor> = 58 \<and>
   decide 5000 0 70000 50 = \<lparr>bc_state = 0, bc_percent = 0\<rparr> \<and>
   \<lfloor>100 * (70000 - 5000) / (70000 - 50) + 1 / 2 :: rat\<rfloor> = 93"
  by code_simp

text \<open>
  Claim C1, amended. For a configuration with
  \<open>0 \<le> min_distance_mm < threshold_mm \<le> 65535\<close>: a status other than 0 gives
  inactive and 0; otherwise a distance of at least the threshold gives inactive and 0, a
  distance of at most the minimum gives active and 100, and a distance strictly between
  gives active exactly when the percentage is positive, the percentage being
  \<open>100 * (threshold - distance) / (threshold - min)\<close> rounded half up whenever that
  value is not exactly halfway between two integers. The examples of the claim for
  threshold 300 and minimum 50 follow.
\<close>

theorem decide_in_range:
  assumes m0: "0 \<le> sint m" and mt: "sint m < sint t" and t1: "sint t \<le> 65535"
  shows
    "(st \<noteq> 0 \<longrightarrow> decide d st t m = \<lparr>bc_state = 0, bc_percent = 0\<rparr>) \<and>
     (st = 0 \<and> sint t \<le> uint d \<longrightarrow> decide d st t m = \<lparr>bc_state = 0, bc_percent = 0\<rparr>) \<and>
     (st = 0 \<and> uint d \<le> sint m \<longrightarrow> decide d st t m = \<lparr>bc_state = 1, bc_percent = 100\<rparr>) \<and>
     (st = 0 \<and> sint m < uint d \<and> uint d < sint t \<longrightarrow>
        bc_state (decide d st t m) = (if 0 < bc_percent (decide d st t m) then 1 else 0) \<and>
        (of_int \<lfloor>100 * of_int (sint t - uint d) / of_int (sint t - sint m) + 1 / 2 :: rat\<rfloor>
           \<noteq> (100 * of_int (sint t - uint d) / of_int (sint t - sint m) + 1 / 2 :: rat) \<longrightarrow>
         uint (bc_percent (decide d st t m)) =
           \<lfloor>100 * of_int (sint t - uint d) / of_int (sint t - sint m) + 1 / 2 :: rat\<rfloor>))"
proof -
  have ut: "uint (ucast t :: 16 word) = sint t"
    using m0 mt t1 by (intro uint_ucast_in_range) simp_all
  have um: "uint (ucast m :: 16 word) = sint m"
    using m0 mt t1 by (intro uint_ucast_in_range) simp_all
  have lt: "(d < (ucast t :: 16 word)) = (uint d < sint t)" by (simp add: word_less_def ut)
  have le: "(d \<le> (ucast m :: 16 word)) = (uint d \<le> sint m)" by (simp add: word_le_def um)
  have b: "dbl_of_int (t - m) = of_int (sint t - sint m)"
    using span_in_range [OF m0 mt t1] by (simp add: dbl_of_int_def)
  have pw: "(0 < (word_of_int (percent_of_frac f) :: 8 word)) = (0 < percent_of_frac f)" for f
    using uint_percent_word [of f] by (simp add: word_less_def)
  have interp: "uint (bc_percent (decide d 0 t m)) =
      \<lfloor>100 * of_int (sint t - uint d) / of_int (sint t - sint m) + 1 / 2 :: rat\<rfloor>"
    if z: "sint m < uint d" "uint d < sint t"
      and nonint: "of_int \<lfloor>100 * of_int (sint t - uint d) / of_int (sint t - sint m) + 1 / 2 :: rat\<rfloor>
           \<noteq> (100 * of_int (sint t - uint d) / of_int (sint t - sint m) + 1 / 2 :: rat)"
  proof -
    have dl: "d < (ucast t :: 16 word)" using z lt by simp
    have a: "dbl_of_int (t - ucast d) = of_int (sint t - uint d)"
      using threshold_minus_dist [OF dl] by (simp add: dbl_of_int_def)
    have e: "percent_of_frac (dbl_div (of_int (sint t - uint d)) (of_int (sint t - sint m))) =
        \<lfloor>100 * of_int (sint t - uint d) / of_int (sint t - sint m) + 1 / 2 :: rat\<rfloor>"
      using z m0 t1 nonint by (intro percent_of_frac_exact) simp_all
    have "decide d 0 t m =
        (let p = percent_of_frac (dbl_div (dbl_of_int (t - ucast d)) (dbl_of_int (t - m)))
         in \<lparr>bc_state = (if 0 < p then 1 else 0), bc_percent = word_of_int p\<rparr>)"
      using z by (simp add: decide_eq lt le)
    then have "uint (bc_percent (decide d 0 t m)) =
        percent_of_frac (dbl_div (of_int (sint t - uint d)) (of_int (sint t - sint m)))"
      unfolding a b by (simp only: Let_def braking_command.simps uint_percent_word)
    then show ?thesis by (simp only: e)
  qed
  show ?thesis
    using mt interp by (auto simp add: decide_eq lt le Let_def pw)
qed

theorem decide_in_range_witness:
  "decide 400 0 300 50 = \<lparr>bc_state = 0, bc_percent = 0\<rparr> \<and>
   decide 50 0 300 50 = \<lparr>bc_state = 1, bc_percent = 100\<rparr> \<and>
   decide 25 0 300 50 = \<lparr>bc_state = 1, bc_percent = 100\<rparr> \<and>
   decide 10 1 300 50 = \<lparr>bc_state = 0, bc_percent = 0\<rparr> \<and>
   bc_state (decide 175 0 300 50) = 1 \<and> uint (bc_percent (decide 175 0 300 50)) = 50"
proof -
  have r: "(0 :: int) \<le> sint (50 :: 32 word)" "sint (50 :: 32 word) < sint (300 :: 32 word)"
    "sint (300 :: 32 word) \<le> 65535" by simp_all
  have f: "\<lfloor>101 / 2 :: rat\<rfloor> = 50" by (rule floor_unique) simp_all
  show ?thesis
    using decide_in_range [OF r, of 0 400] decide_in_range [OF r, of 0 50]
      decide_in_range [OF r, of 0 25] decide_in_range [OF r, of 1 10]
      decide_in_range [OF r, of 0 175]
    by (simp add: f word_less_def split: if_splits)
qed

end
